theory Spec2Isabelle
  imports Complex_Main "HOL-Library.Sublist"
begin

section \<open>Data model (internal/models/search.go)\<close>

text \<open>
  A Go slice is either \<open>nil\<close> or a (possibly empty) sequence. The difference is visible
  in the JSON encoding only, so it is kept in the model: \<open>NilSlice\<close> is the \<open>nil\<close> slice,
  \<open>Slice xs\<close> a non-nil one. \<open>len\<close> and \<open>range\<close> treat both alike.
\<close>

datatype 'a slice = NilSlice | Slice "'a list"

fun elems :: "'a slice \<Rightarrow> 'a list" where
  "elems NilSlice = []"
| "elems (Slice xs) = xs"

definition len :: "'a slice \<Rightarrow> nat" where
  "len s = length (elems s)"

text \<open>
  Scores are \<open>float64\<close> in the source. They are only ever copied and compared, never
  computed with, so they are modelled as reals (the order of the finite floats); NaN is
  outside the model. Go's \<open>int\<close> is modelled as \<open>int\<close>: limits and counts are compared
  and passed on, no arithmetic is done on them.
\<close>

record Citation =
  cit_VerseID :: string
  cit_Text :: string
  cit_Book :: string
  cit_Chapter :: int
  cit_Verse :: int
  cit_RelevanceScore :: "real option"

record ScoredVerse =
  sv_VerseID :: string
  sv_Book :: string
  sv_Chapter :: int
  sv_Verse :: int
  sv_Text :: string
  sv_Score :: real

record ScoredTopic =
  st_TopicID :: string
  st_Name :: string
  st_Source :: string
  st_Category :: string
  st_ChapterRefs :: "string slice"
  st_VerseCount :: int
  st_Score :: real
  st_MatchedWords :: "string slice"

record Topic =
  t_TopicID :: string
  t_Name :: string
  t_Source :: string
  t_Category :: string
  t_ChapterRefs :: "string slice"

record TopicSearchResult =
  tsr_Topic :: Topic
  tsr_Score :: real
  tsr_VerseCount :: int
  tsr_Category :: string

record SemanticSearchRequest =
  sq_Query :: string
  sq_Limit :: int

record SemanticSearchResponse =
  sr_Query :: string
  sr_Results :: "Citation slice"

record HybridSearchRequest =
  hq_Query :: string
  hq_VerseLimit :: int
  hq_TopicLimit :: int

record ResourceMatches =
  Topics :: "ScoredTopic slice"

record SemanticMatches =
  Verses :: "Citation slice"

record TopicCard =
  tc_TopicID :: string
  tc_Name :: string
  tc_Category :: string
  tc_Source :: string
  tc_VerseCount :: int
  tc_Score :: real
  tc_TopVerses :: "Citation slice"

record HybridSearchResponse =
  hr_Query :: string
  hr_TopicCard :: "TopicCard option"
  hr_ResourceMatches :: ResourceMatches
  hr_SemanticMatches :: SemanticMatches

section \<open>Retrieval ports and the call trace (internal/repository/interfaces.go)\<close>

text \<open>
  A Go \<open>error\<close> is modelled by its message. The embedding service and the two
  repositories are the ports of the service; each is a function from its arguments to
  an error or a result. Every call to a port, and every warning written to the request
  log, is recorded in a trace (oldest event first), so that "is never invoked" is a
  statement about the trace.
\<close>

type_synonym err = string

type_synonym embedding = "real list"

record ports =
  EmbedQuery :: "string \<Rightarrow> err + embedding"
  SearchVersesByEmbedding :: "embedding \<Rightarrow> int \<Rightarrow> err + ScoredVerse slice"
  SearchByWords :: "string list \<Rightarrow> int \<Rightarrow> err + TopicSearchResult slice"
  GetTopicVerses :: "string \<Rightarrow> int \<Rightarrow> err + Citation slice"

datatype event =
    EmbedQueryCall string
  | SearchVersesByEmbeddingCall embedding int
  | SearchByWordsCall "string list" int
  | GetTopicVersesCall string int
  | Warnf string

section \<open>Tokenizer (internal/services/vector_search.go, tokenizeWords)\<close>

text \<open>
  Queries are byte strings, as Go strings are. The lower case of an ASCII byte: the
  letters \<open>A\<close>..\<open>Z\<close> are mapped to \<open>a\<close>..\<open>z\<close>, every other byte is kept.
\<close>

definition ToLower_char :: "char \<Rightarrow> char" where
  "ToLower_char c =
     (if (65::nat) \<le> of_char c \<and> of_char c \<le> (90::nat)
      then char_of (of_char c + (32::nat)) else c)"

definition ascii_lower :: "string \<Rightarrow> string" where
  "ascii_lower s = map ToLower_char s"

text \<open>
  \<open>strings.ToLower\<close> of the Go library reads the string rune by rune (UTF-8) and writes
  the lower case of each rune, by the case tables of package \<open>unicode\<close>. Seen from the
  bytes:
  \<^item> an ASCII byte is a rune by itself and is lowered as above;
  \<^item> two runes outside ASCII have a lower case inside ASCII: U+212A (Kelvin sign, the
    bytes E2 84 AA) is lowered to \<open>k\<close>, and U+0130 (capital I with dot above, the bytes
    C4 B0) is lowered to \<open>i\<close>. E2 and C4 are never continuation bytes, so wherever these
    byte sequences occur they are read as these runes;
  \<^item> every other rune outside ASCII, and every byte that is not valid UTF-8, is written
    as a rune outside ASCII again (its lower case, or U+FFFD), that is, as bytes from
    0x80 up. The model keeps the bytes it read. The result is read by the tokenizer
    only, for which a byte from 0x80 up is a separator, as the rune outside ASCII it
    belongs to is in the source; so the fields are the same.
\<close>

fun ToLower :: "string \<Rightarrow> string" where
  "ToLower [] = []"
| "ToLower (c # cs) =
     (if c = CHR 0xE2 \<and> take 2 cs = [CHR 0x84, CHR 0xAA] then CHR ''k'' # ToLower (drop 2 cs)
      else if c = CHR 0xC4 \<and> take 1 cs = [CHR 0xB0] then CHR ''i'' # ToLower (drop 1 cs)
      else ToLower_char c # ToLower cs)"

text \<open>
  The separator predicate passed to \<open>strings.FieldsFunc\<close>: everything but the ASCII
  letters and digits.
\<close>

definition is_separator :: "char \<Rightarrow> bool" where
  "is_separator c =
     (\<not> (((97::nat) \<le> of_char c \<and> of_char c \<le> (122::nat))
        \<or> ((65::nat) \<le> of_char c \<and> of_char c \<le> (90::nat))
        \<or> ((48::nat) \<le> of_char c \<and> of_char c \<le> (57::nat))))"

text \<open>
  \<open>strings.FieldsFunc\<close> of the Go library: one pass over the string; a separator closes
  the field that is open (if any), any other character opens a field or extends the open
  one; the field open at the end of the string is closed there. \<open>cur\<close> is the open field,
  empty when none is open.
\<close>

fun fields_loop :: "(char \<Rightarrow> bool) \<Rightarrow> string \<Rightarrow> string \<Rightarrow> string list" where
  "fields_loop f cur [] = (if cur = [] then [] else [cur])"
| "fields_loop f cur (c # cs) =
     (if f c then (if cur = [] then fields_loop f [] cs else cur # fields_loop f [] cs)
      else fields_loop f (cur @ [c]) cs)"

definition FieldsFunc :: "string \<Rightarrow> (char \<Rightarrow> bool) \<Rightarrow> string list" where
  "FieldsFunc s f = fields_loop f [] s"

definition stopWords_keys :: "string list" where
  "stopWords_keys =
    [''the'', ''and'', ''for'', ''that'', ''with'',
     ''this'', ''are'', ''but'', ''not'', ''you'',
     ''all'', ''was'', ''his'', ''her'', ''from'',
     ''they'', ''have'', ''had'', ''been'', ''were'',
     ''will'', ''would'', ''could'', ''should'', ''shall'',
     ''unto'', ''them'', ''which'', ''there'', ''their'',
     ''when'', ''then'', ''than'', ''into'', ''upon'']"

text \<open>\<open>stopWords[word]\<close>: a key that is missing from the map reads as \<open>false\<close>.\<close>

definition stopWords :: "string \<Rightarrow> bool" where
  "stopWords word = (word \<in> set stopWords_keys)"

text \<open>The test of the filtering loop.\<close>

definition survives :: "string \<Rightarrow> bool" where
  "survives word = (length word \<ge> 2 \<and> \<not> stopWords word)"

text \<open>The loop \<open>for _, word := range words\<close>, appending to \<open>filtered\<close>.\<close>

fun filter_loop :: "string list \<Rightarrow> string list \<Rightarrow> string list" where
  "filter_loop filtered [] = filtered"
| "filter_loop filtered (word # ws) =
     (if length word \<ge> 2 \<and> \<not> stopWords word
      then filter_loop (filtered @ [word]) ws
      else filter_loop filtered ws)"

definition tokenizeWords :: "string \<Rightarrow> string list" where
  "tokenizeWords query = filter_loop [] (FieldsFunc (ToLower query) is_separator)"

section \<open>Search service (internal/services/vector_search.go)\<close>

text \<open>Every service function takes the trace so far and returns the extended trace.\<close>

definition SearchVerses ::
  "ports \<Rightarrow> event list \<Rightarrow> string \<Rightarrow> int \<Rightarrow> (err + ScoredVerse slice) \<times> event list" where
  "SearchVerses p tr query topK =
     (case EmbedQuery p query of
        Inl e \<Rightarrow> (Inl e, tr @ [EmbedQueryCall query])
      | Inr emb \<Rightarrow>
          (SearchVersesByEmbedding p emb topK,
           tr @ [EmbedQueryCall query, SearchVersesByEmbeddingCall emb topK]))"

text \<open>The zero value of \<open>Citation\<close>, which \<open>make\<close> fills the new slice with.\<close>

definition zero_Citation :: Citation where
  "zero_Citation = \<lparr>cit_VerseID = [], cit_Text = [], cit_Book = [], cit_Chapter = 0,
     cit_Verse = 0, cit_RelevanceScore = None\<rparr>"

definition to_Citation :: "ScoredVerse \<Rightarrow> Citation" where
  "to_Citation v = \<lparr>cit_VerseID = sv_VerseID v, cit_Text = sv_Text v, cit_Book = sv_Book v,
     cit_Chapter = sv_Chapter v, cit_Verse = sv_Verse v,
     cit_RelevanceScore = Some (sv_Score v)\<rparr>"

text \<open>The loop \<open>for i, v := range scoredVerses { citations[i] = ... }\<close>.\<close>

fun fill_citations :: "nat \<Rightarrow> ScoredVerse list \<Rightarrow> Citation list \<Rightarrow> Citation list" where
  "fill_citations i [] citations = citations"
| "fill_citations i (v # vs) citations =
     fill_citations (Suc i) vs (citations[i := to_Citation v])"

definition SearchVersesCitations ::
  "ports \<Rightarrow> event list \<Rightarrow> string \<Rightarrow> int \<Rightarrow> (err + Citation slice) \<times> event list" where
  "SearchVersesCitations p tr query topK =
     (case SearchVerses p tr query topK of
        (Inl e, tr') \<Rightarrow> (Inl e, tr')
      | (Inr scoredVerses, tr') \<Rightarrow>
          (Inr (Slice (fill_citations 0 (elems scoredVerses)
                  (replicate (len scoredVerses) zero_Citation))), tr'))"

definition zero_ScoredTopic :: ScoredTopic where
  "zero_ScoredTopic = \<lparr>st_TopicID = [], st_Name = [], st_Source = [], st_Category = [],
     st_ChapterRefs = NilSlice, st_VerseCount = 0, st_Score = 0, st_MatchedWords = NilSlice\<rparr>"

text \<open>
  The struct literal of the loop in \<open>SearchTopics\<close>; the fields it does not set keep their
  zero values. (The copy of the service file that carries \<open>GetTopicCard\<close> sets
  \<open>Category\<close> from the result as well; nothing below depends on that field.)
\<close>

definition to_ScoredTopic :: "TopicSearchResult \<Rightarrow> ScoredTopic" where
  "to_ScoredTopic r = \<lparr>st_TopicID = t_TopicID (tsr_Topic r), st_Name = t_Name (tsr_Topic r),
     st_Source = t_Source (tsr_Topic r), st_Category = [],
     st_ChapterRefs = t_ChapterRefs (tsr_Topic r), st_VerseCount = tsr_VerseCount r,
     st_Score = tsr_Score r, st_MatchedWords = NilSlice\<rparr>"

fun fill_topics :: "nat \<Rightarrow> TopicSearchResult list \<Rightarrow> ScoredTopic list \<Rightarrow> ScoredTopic list" where
  "fill_topics i [] topics = topics"
| "fill_topics i (r # rs) topics = fill_topics (Suc i) rs (topics[i := to_ScoredTopic r])"

definition SearchTopics ::
  "ports \<Rightarrow> event list \<Rightarrow> string \<Rightarrow> int \<Rightarrow> (err + ScoredTopic slice) \<times> event list" where
  "SearchTopics p tr query topK =
     (let words = tokenizeWords query in
      if length words = 0 then (Inr (Slice []), tr)
      else (case SearchByWords p words topK of
              Inl e \<Rightarrow> (Inl e, tr @ [SearchByWordsCall words topK])
            | Inr results \<Rightarrow>
                (Inr (Slice (fill_topics 0 (elems results)
                        (replicate (len results) zero_ScoredTopic))),
                 tr @ [SearchByWordsCall words topK])))"

text \<open>
  \<open>preferredSources\<close> and \<open>GetTopicCard\<close>, from the copy of the service file that has
  the topic card (src/unnamed/part_001).
\<close>

definition preferredSources :: "string list" where
  "preferredSources = [''claude_4.5_opus'', ''torreys_topical_textbook'', ''naves_topical_bible'']"

text \<open>
  The inner loop \<open>for i := range topics\<close>: it stops (\<open>break\<close>) at the first topic of the
  preferred source whose score reaches \<open>minScore\<close>. \<open>selectedTopic\<close> points into the
  slice, which is not written to afterwards, so the pointer is modelled by the element.
\<close>

fun inner_loop :: "ScoredTopic list \<Rightarrow> string \<Rightarrow> real \<Rightarrow> ScoredTopic option" where
  "inner_loop [] preferredSource minScore = None"
| "inner_loop (t # ts) preferredSource minScore =
     (if st_Source t = preferredSource \<and> st_Score t \<ge> minScore then Some t
      else inner_loop ts preferredSource minScore)"

text \<open>The outer loop over the preferred sources; it stops once a topic is selected.\<close>

fun outer_loop :: "string list \<Rightarrow> ScoredTopic list \<Rightarrow> real \<Rightarrow> ScoredTopic option" where
  "outer_loop [] topics minScore = None"
| "outer_loop (preferredSource # rest) topics minScore =
     (case inner_loop topics preferredSource minScore of
        Some t \<Rightarrow> Some t
      | None \<Rightarrow> outer_loop rest topics minScore)"

text \<open>The selection part of \<open>GetTopicCard\<close>, up to the fetch of the verses.\<close>

definition selectedTopic :: "ScoredTopic slice \<Rightarrow> real \<Rightarrow> ScoredTopic option" where
  "selectedTopic topics minScore =
     (case elems topics of
        [] \<Rightarrow> None
      | t0 # _ \<Rightarrow>
          (case outer_loop preferredSources (elems topics) minScore of
             Some t \<Rightarrow> Some t
           | None \<Rightarrow> (if st_Score t0 \<ge> minScore then Some t0 else None)))"

definition to_TopicCard :: "ScoredTopic \<Rightarrow> Citation slice \<Rightarrow> TopicCard" where
  "to_TopicCard t verses = \<lparr>tc_TopicID = st_TopicID t, tc_Name = st_Name t,
     tc_Category = st_Category t, tc_Source = st_Source t, tc_VerseCount = st_VerseCount t,
     tc_Score = st_Score t, tc_TopVerses = verses\<rparr>"

definition GetTopicCard ::
  "ports \<Rightarrow> event list \<Rightarrow> ScoredTopic slice \<Rightarrow> real \<Rightarrow> int
     \<Rightarrow> (err + TopicCard option) \<times> event list" where
  "GetTopicCard p tr topics minScore verseLimit =
     (case selectedTopic topics minScore of
        None \<Rightarrow> (Inr None, tr)
      | Some t \<Rightarrow>
          (case GetTopicVerses p (st_TopicID t) verseLimit of
             Inl e \<Rightarrow> (Inl e, tr @ [GetTopicVersesCall (st_TopicID t) verseLimit])
           | Inr verses \<Rightarrow>
               (Inr (Some (to_TopicCard t verses)),
                tr @ [GetTopicVersesCall (st_TopicID t) verseLimit])))"

section \<open>Handlers (internal/handlers/search.go)\<close>

text \<open>
  An \<open>echo.HTTPError\<close> is its status code and message. The request body as bound by
  \<open>c.Bind\<close> is \<open>None\<close> when binding fails (a body that is not JSON, or a limit that
  is not a Go \<open>int\<close>). A handler starts with an empty trace and returns the error or
  the response value given to \<open>c.JSON\<close>, with the trace.
\<close>

datatype http_error = HTTPError int string

definition SemanticSearch ::
  "ports \<Rightarrow> SemanticSearchRequest option
     \<Rightarrow> (http_error + SemanticSearchResponse) \<times> event list" where
  "SemanticSearch p bound =
     (case bound of
        None \<Rightarrow> (Inl (HTTPError 400 ''Invalid request body''), [])
      | Some req \<Rightarrow>
          if sq_Query req = [] then (Inl (HTTPError 400 ''Query is required''), [])
          else
            let limit = (if sq_Limit req \<le> 0 \<or> sq_Limit req > 50 then 10 else sq_Limit req)
            in (case SearchVersesCitations p [] (sq_Query req) limit of
                  (Inl e, tr) \<Rightarrow> (Inl (HTTPError 500 (''Search failed: '' @ e)), tr)
                | (Inr citations, tr) \<Rightarrow>
                    (Inr \<lparr>sr_Query = sq_Query req, sr_Results = citations\<rparr>, tr)))"

definition HybridSearch ::
  "ports \<Rightarrow> HybridSearchRequest option
     \<Rightarrow> (http_error + HybridSearchResponse) \<times> event list" where
  "HybridSearch p bound =
     (case bound of
        None \<Rightarrow> (Inl (HTTPError 400 ''Invalid request body''), [])
      | Some req \<Rightarrow>
          if hq_Query req = [] then (Inl (HTTPError 400 ''Query is required''), [])
          else
            let verseLimit =
                  (if hq_VerseLimit req \<le> 0 \<or> hq_VerseLimit req > 50 then 10
                   else hq_VerseLimit req);
                topicLimit =
                  (if hq_TopicLimit req \<le> 0 \<or> hq_TopicLimit req > 50 then 5
                   else hq_TopicLimit req)
            in (case SearchVersesCitations p [] (hq_Query req) verseLimit of
                  (Inl e, tr) \<Rightarrow> (Inl (HTTPError 500 (''Search failed: '' @ e)), tr)
                | (Inr citations, tr) \<Rightarrow>
                    (case SearchTopics p tr (hq_Query req) topicLimit of
                       (Inl e, tr') \<Rightarrow>
                         (Inr \<lparr>hr_Query = hq_Query req, hr_TopicCard = None,
                               hr_ResourceMatches = \<lparr>Topics = Slice []\<rparr>,
                               hr_SemanticMatches = \<lparr>Verses = citations\<rparr>\<rparr>,
                          tr' @ [Warnf (''Topic search failed: '' @ e)])
                     | (Inr topics, tr') \<Rightarrow>
                         (Inr \<lparr>hr_Query = hq_Query req, hr_TopicCard = None,
                               hr_ResourceMatches = \<lparr>Topics = topics\<rparr>,
                               hr_SemanticMatches = \<lparr>Verses = citations\<rparr>\<rparr>,
                          tr'))))"

subsection \<open>The JSON encoding of the result lists\<close>

text \<open>
  What \<open>encoding/json\<close> writes for a slice field of a response, by the field's tag in
  internal/models/search.go: without \<open>omitempty\<close> a \<open>nil\<close> slice is written as \<open>null\<close>
  and any other slice as an array; with \<open>omitempty\<close> a slice of length 0 (\<open>nil\<close> or
  not) is left out of the object.
\<close>

datatype 'a json_field = Omitted | Null | Array "'a list"

definition marshal_plain :: "'a slice \<Rightarrow> 'a json_field" where
  "marshal_plain s = (case s of NilSlice \<Rightarrow> Null | Slice xs \<Rightarrow> Array xs)"

definition marshal_omitempty :: "'a slice \<Rightarrow> 'a json_field" where
  "marshal_omitempty s = (if len s = 0 then Omitted else Array (elems s))"

text \<open>\<open>Topics []ScoredTopic `json:"topics,omitempty"`\<close>\<close>

definition json_topics :: "HybridSearchResponse \<Rightarrow> ScoredTopic json_field" where
  "json_topics r = marshal_omitempty (Topics (hr_ResourceMatches r))"

text \<open>\<open>Verses []Citation `json:"verses"`\<close>\<close>

definition json_verses :: "HybridSearchResponse \<Rightarrow> Citation json_field" where
  "json_verses r = marshal_plain (Verses (hr_SemanticMatches r))"

text \<open>\<open>Results []Citation `json:"results"`\<close>\<close>

definition json_results :: "SemanticSearchResponse \<Rightarrow> Citation json_field" where
  "json_results r = marshal_plain (sr_Results r)"

section \<open>Keyword scoring (internal/repository/postgres/topic_repo.go, SearchByWords)\<close>

text \<open>
  \<open>SearchByWords\<close> builds one SQL query; the score of a row of
  \<open>api_views.mv_topics_summary\<close> is the \<open>GREATEST\<close> of one \<open>CASE\<close> expression per word.
  The model follows the text of that query. A column is \<open>None\<close> when it is \<open>NULL\<close>. A
  condition of a \<open>WHEN\<close> selects its branch only when it is true, so each SQL condition
  is modelled by the truth value "the condition is true" (a comparison with \<open>NULL\<close> is
  not). The constants 1.0, 0.95, ... are exact decimals in SQL.
\<close>

record summary_row =
  row_topic_id :: string
  row_name :: "string option"
  row_source :: "string option"
  row_category :: "string option"
  row_topic :: "string option"
  row_sub_topic :: "string option"
  row_verse_count :: int

text \<open>\<open>LOWER(x)\<close>, on ASCII.\<close>

definition sql_LOWER :: "string option \<Rightarrow> string option" where
  "sql_LOWER x = map_option ascii_lower x"

text \<open>\<open>TRIM('%' FROM x)\<close>: the percent signs at both ends are removed.\<close>

definition sql_TRIM_percent :: "string \<Rightarrow> string" where
  "sql_TRIM_percent x =
     rev (dropWhile (\<lambda>c. c = CHR ''%'') (rev (dropWhile (\<lambda>c. c = CHR ''%'') x)))"

text \<open>\<open>x = y\<close> is true.\<close>

definition sql_eq :: "string option \<Rightarrow> string option \<Rightarrow> bool" where
  "sql_eq x y = (case (x, y) of (Some a, Some b) \<Rightarrow> a = b | _ \<Rightarrow> False)"

text \<open>
  The pattern language of \<open>LIKE\<close> (pattern first): \<open>%\<close> stands for any sequence of
  characters, \<open>_\<close> for any one character, a backslash makes the next pattern character
  literal. PostgreSQL rejects a pattern that ends in a lone backslash; such a pattern
  matches nothing here.
\<close>

fun like_match :: "string \<Rightarrow> string \<Rightarrow> bool" where
  "like_match [] s = (s = [])"
| "like_match (p # ps) [] = (p = CHR ''%'' \<and> like_match ps [])"
| "like_match (p # ps) (c # cs) =
     (if p = CHR ''%'' then like_match ps (c # cs) \<or> like_match (p # ps) cs
      else if p = CHR ''_'' then like_match ps cs
      else if p = CHR 0x5C then (case ps of [] \<Rightarrow> False | q # qs \<Rightarrow> q = c \<and> like_match qs cs)
      else p = c \<and> like_match ps cs)"

text \<open>\<open>x LIKE pat\<close> is true; \<open>x ILIKE pat\<close> is true (matching without regard to case).\<close>

definition sql_LIKE :: "string option \<Rightarrow> string option \<Rightarrow> bool" where
  "sql_LIKE x pat = (case (x, pat) of (Some a, Some p) \<Rightarrow> like_match p a | _ \<Rightarrow> False)"

definition sql_ILIKE :: "string option \<Rightarrow> string option \<Rightarrow> bool" where
  "sql_ILIKE x pat = sql_LIKE (sql_LOWER x) (sql_LOWER pat)"

text \<open>\<open>x || y\<close>\<close>

definition sql_concat :: "string option \<Rightarrow> string option \<Rightarrow> string option" where
  "sql_concat x y = (case (x, y) of (Some a, Some b) \<Rightarrow> Some (a @ b) | _ \<Rightarrow> None)"

text \<open>
  The \<open>CASE\<close> expression built for one word; \<open>arg\<close> is the value bound to the word's
  parameter, the word between two percent signs.
\<close>

definition score_case :: "string \<Rightarrow> summary_row \<Rightarrow> real" where
  "score_case arg r =
     (if sql_eq (sql_LOWER (row_topic r)) (sql_LOWER (Some (sql_TRIM_percent arg))) then 1.0
      else if sql_LIKE (sql_LOWER (row_topic r))
                (sql_concat (sql_LOWER (Some (sql_TRIM_percent arg))) (Some ''%'')) then 0.95
      else if sql_eq (sql_LOWER (row_sub_topic r)) (sql_LOWER (Some (sql_TRIM_percent arg)))
        then 0.9
      else if sql_ILIKE (row_topic r) (Some arg) \<or> sql_ILIKE (row_sub_topic r) (Some arg)
        then 0.85
      else if sql_ILIKE (row_name r) (Some arg) then 0.7
      else 0.0)"

text \<open>The argument list: \<open>"%" + word + "%"\<close> for each word.\<close>

definition word_arg :: "string \<Rightarrow> string" where
  "word_arg word = ''%'' @ word @ ''%''"

text \<open>
  \<open>GREATEST(...)\<close> over the \<open>CASE\<close> expressions of all words. With no words
  \<open>SearchByWords\<close> returns the empty result before any query is built, and no row gets a
  score: \<open>None\<close>.
\<close>

definition topic_score :: "string list \<Rightarrow> summary_row \<Rightarrow> real option" where
  "topic_score words r =
     (case words of
        [] \<Rightarrow> None
      | w # ws \<Rightarrow> Some (fold max (map (\<lambda>word. score_case (word_arg word) r) ws)
                             (score_case (word_arg w) r)))"

section \<open>The notions of the specification\<close>

subsection \<open>Queries, limits and the card selection\<close>

text \<open>
  A query made of the given words, one space between consecutive words; the ASCII
  letters and digits, of which words are made; the other ASCII characters (blanks,
  punctuation), which separate words.
\<close>

fun join_words :: "string list \<Rightarrow> string" where
  "join_words [] = []"
| "join_words [w] = w"
| "join_words (w # ws) = w @ CHR '' '' # join_words ws"

definition is_ascii_alnum :: "char \<Rightarrow> bool" where
  "is_ascii_alnum c =
     (((97::nat) \<le> of_char c \<and> of_char c \<le> (122::nat))
      \<or> ((65::nat) \<le> of_char c \<and> of_char c \<le> (90::nat))
      \<or> ((48::nat) \<le> of_char c \<and> of_char c \<le> (57::nat)))"

definition is_ascii_separator :: "char \<Rightarrow> bool" where
  "is_ascii_separator c = ((of_char c :: nat) < 128 \<and> \<not> is_ascii_alnum c)"

text \<open>
  The limit a handler is specified to work with: the requested limit when it lies in
  [1,50], the documented default otherwise.
\<close>

definition resolved_limit :: "int \<Rightarrow> int \<Rightarrow> int" where
  "resolved_limit dflt l = (if 1 \<le> l \<and> l \<le> 50 then l else dflt)"

text \<open>
  The selection as the specification words it: of the topics that have a preferred
  source and reach \<open>min_score\<close>, listed source by source in preference order and, for
  one source, in the order of the topic list, the first; if there is none, the first
  topic of the list provided it reaches \<open>min_score\<close>; otherwise none.
\<close>

definition select_card_spec :: "ScoredTopic list \<Rightarrow> real \<Rightarrow> ScoredTopic option" where
  "select_card_spec topics min_score =
     (case concat (map (\<lambda>source. filter (\<lambda>t. st_Source t = source \<and> st_Score t \<ge> min_score) topics)
                    preferredSources) of
        t # _ \<Rightarrow> Some t
      | [] \<Rightarrow> (case topics of
                 [] \<Rightarrow> None
               | t0 # _ \<Rightarrow> if st_Score t0 \<ge> min_score then Some t0 else None))"

text \<open>
  The position of a source in the preference list (0 for the most preferred source, the
  length of the list for a source that is not in it).
\<close>

definition source_rank :: "string \<Rightarrow> nat" where
  "source_rank s = length (takeWhile (\<lambda>p. p \<noteq> s) preferredSources)"

subsection \<open>The scoring policy\<close>

text \<open>
  A keyword as the tokenizer produces it contains no character that is special in a
  \<open>LIKE\<close> pattern.
\<close>

definition plain_keyword :: "string \<Rightarrow> bool" where
  "plain_keyword w = (\<forall>c\<in>set w. c \<noteq> CHR ''%'' \<and> c \<noteq> CHR ''_'' \<and> c \<noteq> CHR 0x5C)"

text \<open>
  The five kinds of match of a keyword with a topic, all without regard to case: the
  primary label (column \<open>topic\<close>) equals the keyword; the primary label starts with it;
  the secondary label (column \<open>sub_topic\<close>) equals it; one of the two labels contains it;
  the display name (column \<open>name\<close>) contains it.
\<close>

definition exact_label :: "string \<Rightarrow> summary_row \<Rightarrow> bool" where
  "exact_label w r = (case row_topic r of None \<Rightarrow> False | Some t \<Rightarrow> ascii_lower t = ascii_lower w)"

definition prefix_label :: "string \<Rightarrow> summary_row \<Rightarrow> bool" where
  "prefix_label w r =
     (case row_topic r of None \<Rightarrow> False | Some t \<Rightarrow> prefix (ascii_lower w) (ascii_lower t))"

definition exact_secondary :: "string \<Rightarrow> summary_row \<Rightarrow> bool" where
  "exact_secondary w r =
     (case row_sub_topic r of None \<Rightarrow> False | Some t \<Rightarrow> ascii_lower t = ascii_lower w)"

definition substring_label :: "string \<Rightarrow> summary_row \<Rightarrow> bool" where
  "substring_label w r =
     ((case row_topic r of None \<Rightarrow> False | Some t \<Rightarrow> sublist (ascii_lower w) (ascii_lower t))
      \<or> (case row_sub_topic r of None \<Rightarrow> False | Some t \<Rightarrow> sublist (ascii_lower w) (ascii_lower t)))"

definition substring_name :: "string \<Rightarrow> summary_row \<Rightarrow> bool" where
  "substring_name w r =
     (case row_name r of None \<Rightarrow> False | Some n \<Rightarrow> sublist (ascii_lower w) (ascii_lower n))"

text \<open>The contribution of one keyword: the maximum of the values of the matches it has, and 0.\<close>

definition keyword_contribution :: "string \<Rightarrow> summary_row \<Rightarrow> real" where
  "keyword_contribution w r =
     Max (set [if exact_label w r then 1.0 else 0,
               if prefix_label w r then 0.95 else 0,
               if exact_secondary w r then 0.9 else 0,
               if substring_label w r then 0.85 else 0,
               if substring_name w r then 0.7 else 0,
               0])"

text \<open>The score of a topic: the maximum of the contributions of the keywords.\<close>

definition topic_score_spec :: "string list \<Rightarrow> summary_row \<Rightarrow> real" where
  "topic_score_spec words r = Max ((\<lambda>w. keyword_contribution w r) ` set words)"

section \<open>Concrete ports and inputs\<close>

definition demo_verses :: "ScoredVerse list" where
  "demo_verses =
    [\<lparr>sv_VerseID = ''John.1.1'', sv_Book = ''John'', sv_Chapter = 1, sv_Verse = 1,
      sv_Text = ''In the beginning was the Word'', sv_Score = 9/10\<rparr>,
     \<lparr>sv_VerseID = ''Gen.1.1'', sv_Book = ''Gen'', sv_Chapter = 1, sv_Verse = 1,
      sv_Text = ''In the beginning God created'', sv_Score = 8/10\<rparr>]"

text \<open>Ports whose semantic channel answers and whose keyword channel fails.\<close>

definition demo_ports :: ports where
  "demo_ports = \<lparr>EmbedQuery = (\<lambda>q. Inr [1, 0]),
     SearchVersesByEmbedding = (\<lambda>emb k. Inr (Slice demo_verses)),
     SearchByWords = (\<lambda>ws k. Inl ''connection refused''),
     GetTopicVerses = (\<lambda>tid k. Inr (Slice []))\<rparr>"

text \<open>
  An index answer for the query "trinity": two topics named Trinity with score 1.0, the
  one from a less preferred source with more verses and therefore first in the port's
  order (score descending, then verse count descending).
\<close>

definition trinity_naves :: TopicSearchResult where
  "trinity_naves = \<lparr>tsr_Topic = \<lparr>t_TopicID = ''n-4711'', t_Name = ''Trinity'',
       t_Source = ''naves_topical_bible'', t_Category = [], t_ChapterRefs = NilSlice\<rparr>,
     tsr_Score = 1, tsr_VerseCount = 85, tsr_Category = []\<rparr>"

definition trinity_claude :: TopicSearchResult where
  "trinity_claude = \<lparr>tsr_Topic = \<lparr>t_TopicID = ''c-17'', t_Name = ''Trinity'',
       t_Source = ''claude_4.5_opus'', t_Category = [], t_ChapterRefs = NilSlice\<rparr>,
     tsr_Score = 1, tsr_VerseCount = 12, tsr_Category = []\<rparr>"

definition trinity_verse :: Citation where
  "trinity_verse = \<lparr>cit_VerseID = ''Matt.28.19'', cit_Text = ''Go ye therefore'',
     cit_Book = ''Matt'', cit_Chapter = 28, cit_Verse = 19, cit_RelevanceScore = None\<rparr>"

definition trinity_ports :: ports where
  "trinity_ports = \<lparr>EmbedQuery = (\<lambda>q. Inr [1, 0]),
     SearchVersesByEmbedding = (\<lambda>emb k. Inr (Slice demo_verses)),
     SearchByWords = (\<lambda>ws k. Inr (Slice [trinity_naves, trinity_claude])),
     GetTopicVerses = (\<lambda>tid k. Inr (Slice [trinity_verse]))\<rparr>"

definition trinity_request :: HybridSearchRequest where
  "trinity_request = \<lparr>hq_Query = ''trinity'', hq_VerseLimit = 10, hq_TopicLimit = 5\<rparr>"

text \<open>Ports whose embedding fails.\<close>

definition failing_ports :: ports where
  "failing_ports = \<lparr>EmbedQuery = (\<lambda>q. Inl ''embedding unavailable''),
     SearchVersesByEmbedding = (\<lambda>emb k. Inr (Slice demo_verses)),
     SearchByWords = (\<lambda>ws k. Inr (Slice [trinity_naves, trinity_claude])),
     GetTopicVerses = (\<lambda>tid k. Inr (Slice [trinity_verse]))\<rparr>"

text \<open>
  Queries with runes outside ASCII: "The AND w\<open>\<dots>\<close>th" with U+0130 (C4 B0) in the place of
  the i, which is lowered to the stop word "with"; "\<open>\<dots>\<close>9" and "\<open>\<dots>\<close>elvin the KELVIN"
  with the Kelvin sign U+212A (E2 84 AA) in front.
\<close>

definition dotted_stop_query :: string where
  "dotted_stop_query = ''The AND w'' @ [CHR 0xC4, CHR 0xB0] @ ''th''"

definition kelvin9_query :: string where
  "kelvin9_query = [CHR 0xE2, CHR 0x84, CHR 0xAA] @ ''9''"

definition kelvin_query :: string where
  "kelvin_query = [CHR 0xE2, CHR 0x84, CHR 0xAA] @ ''elvin the KELVIN''"

definition stopword_request :: HybridSearchRequest where
  "stopword_request = \<lparr>hq_Query = dotted_stop_query, hq_VerseLimit = 10, hq_TopicLimit = 5\<rparr>"

text \<open>Ports whose two channels both answer with zero matches.\<close>

definition empty_ports :: ports where
  "empty_ports = \<lparr>EmbedQuery = (\<lambda>q. Inr [1, 0]),
     SearchVersesByEmbedding = (\<lambda>emb k. Inr (Slice [])),
     SearchByWords = (\<lambda>ws k. Inr (Slice [])),
     GetTopicVerses = (\<lambda>tid k. Inr (Slice []))\<rparr>"

text \<open>Requests with limits outside [1,50].\<close>

definition wild_request :: HybridSearchRequest where
  "wild_request = \<lparr>hq_Query = ''trinity'', hq_VerseLimit = 1000, hq_TopicLimit = 0\<rparr>"

definition wild_srequest :: SemanticSearchRequest where
  "wild_srequest = \<lparr>sq_Query = ''trinity'', sq_Limit = - 3\<rparr>"

text \<open>
  Topic lists for the card selector: a topic of the second preferred source with the top
  score in front of a topic of the most preferred source with a lower score, and a topic
  of an unlisted source with a low score.
\<close>

definition grace_torrey :: ScoredTopic where
  "grace_torrey = \<lparr>st_TopicID = ''t-9'', st_Name = ''Grace'',
     st_Source = ''torreys_topical_textbook'', st_Category = [], st_ChapterRefs = NilSlice,
     st_VerseCount = 64, st_Score = 1, st_MatchedWords = NilSlice\<rparr>"

definition grace_claude :: ScoredTopic where
  "grace_claude = \<lparr>st_TopicID = ''c-3'', st_Name = ''Saving grace'',
     st_Source = ''claude_4.5_opus'', st_Category = [], st_ChapterRefs = NilSlice,
     st_VerseCount = 7, st_Score = 85/100, st_MatchedWords = NilSlice\<rparr>"

definition low_topic :: ScoredTopic where
  "low_topic = \<lparr>st_TopicID = ''x-1'', st_Name = ''Disgrace'',
     st_Source = ''eastons_dictionary'', st_Category = [], st_ChapterRefs = NilSlice,
     st_VerseCount = 2, st_Score = 7/10, st_MatchedWords = NilSlice\<rparr>"

text \<open>A row of the topic summary: the topic "Trinity".\<close>

definition trinity_row :: summary_row where
  "trinity_row = \<lparr>row_topic_id = ''c-17'', row_name = Some ''Trinity, the Holy'',
     row_source = Some ''claude_4.5_opus'', row_category = None,
     row_topic = Some ''Trinity'', row_sub_topic = Some ''Holy Spirit'',
     row_verse_count = 12\<rparr>"

section \<open>Properties\<close>

subsection \<open>The copying loops are maps\<close>

lemma fill_citations_eq:
  "i + length vs \<le> length cs \<Longrightarrow>
   fill_citations i vs cs = take i cs @ map to_Citation vs @ drop (i + length vs) cs"
proof (induction vs arbitrary: i cs)
  case Nil
  then show ?case by simp
next
  case (Cons v vs)
  then show ?case
    by (simp add: upd_conv_take_nth_drop take_Suc_conv_app_nth nth_list_update drop_Suc
        add.commute)
qed

lemma fill_citations_all:
  "fill_citations 0 vs (replicate (length vs) z) = map to_Citation vs"
  by (simp add: fill_citations_eq)

lemma fill_topics_eq:
  "i + length rs \<le> length ts \<Longrightarrow>
   fill_topics i rs ts = take i ts @ map to_ScoredTopic rs @ drop (i + length rs) ts"
proof (induction rs arbitrary: i ts)
  case Nil
  then show ?case by simp
next
  case (Cons r rs)
  then show ?case
    by (simp add: upd_conv_take_nth_drop take_Suc_conv_app_nth nth_list_update drop_Suc
        add.commute)
qed

lemma fill_topics_all:
  "fill_topics 0 rs (replicate (length rs) z) = map to_ScoredTopic rs"
  by (simp add: fill_topics_eq)

lemma SearchVersesCitations_Inr:
  "SearchVerses p tr query topK = (Inr scoredVerses, tr') \<Longrightarrow>
   SearchVersesCitations p tr query topK =
     (Inr (Slice (map to_Citation (elems scoredVerses))), tr')"
  by (simp add: SearchVersesCitations_def len_def fill_citations_all)

lemma SearchVersesCitations_Inl:
  "SearchVerses p tr query topK = (Inl e, tr') \<Longrightarrow>
   SearchVersesCitations p tr query topK = (Inl e, tr')"
  by (simp add: SearchVersesCitations_def)

subsection \<open>C8: citations mirror the scored verses\<close>

text \<open>
  C8. Whenever the semantic search succeeds with the list \<open>scoredVerses\<close> of the
  retrieval port, \<open>SearchVersesCitations\<close> returns a (non-nil) citation list of the same
  length, whose i-th citation carries the id, text, book, chapter and verse number of the
  i-th scored verse and its score as relevance score: nothing is re-sorted, dropped or cut.
\<close>

theorem citations_follow_scored_verses:
  assumes "SearchVerses p tr query topK = (Inr scoredVerses, tr')"
  shows "\<exists>citations.
           SearchVersesCitations p tr query topK = (Inr (Slice citations), tr')
         \<and> length citations = len scoredVerses
         \<and> (\<forall>i < len scoredVerses.
              cit_VerseID (citations ! i) = sv_VerseID (elems scoredVerses ! i)
            \<and> cit_Text (citations ! i) = sv_Text (elems scoredVerses ! i)
            \<and> cit_Book (citations ! i) = sv_Book (elems scoredVerses ! i)
            \<and> cit_Chapter (citations ! i) = sv_Chapter (elems scoredVerses ! i)
            \<and> cit_Verse (citations ! i) = sv_Verse (elems scoredVerses ! i)
            \<and> cit_RelevanceScore (citations ! i) = Some (sv_Score (elems scoredVerses ! i)))"
proof -
  let ?cs = "map to_Citation (elems scoredVerses)"
  have "SearchVersesCitations p tr query topK = (Inr (Slice ?cs), tr')"
    using assms by (rule SearchVersesCitations_Inr)
  moreover have "length ?cs = len scoredVerses"
    by (simp add: len_def)
  moreover have "\<forall>i < len scoredVerses.
              cit_VerseID (?cs ! i) = sv_VerseID (elems scoredVerses ! i)
            \<and> cit_Text (?cs ! i) = sv_Text (elems scoredVerses ! i)
            \<and> cit_Book (?cs ! i) = sv_Book (elems scoredVerses ! i)
            \<and> cit_Chapter (?cs ! i) = sv_Chapter (elems scoredVerses ! i)
            \<and> cit_Verse (?cs ! i) = sv_Verse (elems scoredVerses ! i)
            \<and> cit_RelevanceScore (?cs ! i) = Some (sv_Score (elems scoredVerses ! i))"
    by (simp add: len_def to_Citation_def)
  ultimately show ?thesis by blast
qed

lemma demo_SearchVerses:
  "SearchVerses demo_ports [] ''beginning'' 10 =
     (Inr (Slice demo_verses),
      [EmbedQueryCall ''beginning'', SearchVersesByEmbeddingCall [1, 0] 10])"
  by (simp add: SearchVerses_def demo_ports_def)

theorem citations_follow_scored_verses_witness:
  "SearchVerses demo_ports [] ''beginning'' 10 =
     (Inr (Slice demo_verses),
      [EmbedQueryCall ''beginning'', SearchVersesByEmbeddingCall [1, 0] 10])
   \<and> (\<exists>citations.
        SearchVersesCitations demo_ports [] ''beginning'' 10 =
          (Inr (Slice citations),
           [EmbedQueryCall ''beginning'', SearchVersesByEmbeddingCall [1, 0] 10])
      \<and> length citations = 2
      \<and> cit_VerseID (citations ! 0) = ''John.1.1''
      \<and> cit_RelevanceScore (citations ! 0) = Some (9/10)
      \<and> cit_VerseID (citations ! 1) = ''Gen.1.1''
      \<and> cit_RelevanceScore (citations ! 1) = Some (8/10))"
  using citations_follow_scored_verses [OF demo_SearchVerses] demo_SearchVerses
  by (auto simp add: len_def demo_verses_def less_Suc_eq)

subsection \<open>The tokenizer on ASCII words and separators\<close>

lemma filter_loop_eq: "filter_loop acc ws = acc @ filter survives ws"
  by (induction ws arbitrary: acc) (auto simp: survives_def)

lemma tokenizeWords_filter:
  "tokenizeWords q = filter survives (FieldsFunc (ToLower q) is_separator)"
  by (simp add: tokenizeWords_def filter_loop_eq)

lemma count_list_filter:
  "count_list (filter P xs) w = (if P w then count_list xs w else 0)"
  by (induction xs) auto

lemma ascii_not_lead:
  "(of_char c :: nat) < 128 \<Longrightarrow>
   c \<noteq> CHR 0xE2 \<and> c \<noteq> CHR 0xC4 \<and> c \<noteq> CHR 0x84 \<and> c \<noteq> CHR 0xAA \<and> c \<noteq> CHR 0xB0"
  by auto

lemma ToLower_ascii:
  "\<forall>c\<in>set u. (of_char c :: nat) < 128 \<Longrightarrow> ToLower u = map ToLower_char u"
  by (induction u) (auto dest: ascii_not_lead)

text \<open>An ASCII byte ends whatever precedes it: lower-casing splits there.\<close>

lemma ToLower_append_ascii:
  "(of_char c :: nat) < 128 \<Longrightarrow> ToLower (a @ c # b) = ToLower a @ ToLower_char c # ToLower b"
proof (induction a rule: ToLower.induct)
  case 1
  then show ?case by (auto dest: ascii_not_lead)
next
  case (2 x xs)
  note asc = ascii_not_lead [OF 2(4)]
  show ?case
  proof (cases "x = CHR 0xE2 \<and> take 2 xs = [CHR 0x84, CHR 0xAA]")
    case True
    then obtain r where xs: "xs = CHR 0x84 # CHR 0xAA # r"
      by (cases xs; cases "tl xs") auto
    with True 2(1) 2(4) show ?thesis by simp
  next
    case nk: False
    have nk': "\<not> (x = CHR 0xE2 \<and> take 2 (xs @ c # b) = [CHR 0x84, CHR 0xAA])"
      using nk asc by (cases xs; cases "tl xs") auto
    show ?thesis
    proof (cases "x = CHR 0xC4 \<and> take 1 xs = [CHR 0xB0]")
      case True
      then obtain r where xs: "xs = CHR 0xB0 # r"
        by (cases xs) auto
      with True nk 2(2) 2(4) show ?thesis by simp
    next
      case ni: False
      have ni': "\<not> (x = CHR 0xC4 \<and> take 1 (xs @ c # b) = [CHR 0xB0])"
        using ni asc by (cases xs) auto
      from nk ni 2(3) 2(4)
      have IH: "ToLower (xs @ c # b) = ToLower xs @ ToLower_char c # ToLower b"
        by simp
      have L: "ToLower (x # (xs @ c # b)) = ToLower_char x # ToLower (xs @ c # b)"
        using nk' ni' by (simp only: ToLower.simps if_False)
      have R: "ToLower (x # xs) = ToLower_char x # ToLower xs"
        using nk ni by (simp only: ToLower.simps if_False)
      show ?thesis by (simp only: append_Cons L R IH)
    qed
  qed
qed

lemma fields_loop_word:
  "\<forall>c\<in>set w. \<not> f c \<Longrightarrow> fields_loop f cur (w @ rest) = fields_loop f (cur @ w) rest"
  by (induction w arbitrary: cur) auto

lemma fields_loop_split:
  "f c \<Longrightarrow> fields_loop f cur (a @ c # b) = fields_loop f cur a @ fields_loop f [] b"
  by (induction a arbitrary: cur) auto

lemma is_ascii_alnum_separator: "is_separator c = (\<not> is_ascii_alnum c)"
  by (simp add: is_separator_def is_ascii_alnum_def)

lemma is_ascii_alnum_ascii: "is_ascii_alnum c \<Longrightarrow> (of_char c :: nat) < 128"
  by (auto simp: is_ascii_alnum_def)

lemma is_ascii_alnum_ToLower_char: "is_ascii_alnum c \<Longrightarrow> is_ascii_alnum (ToLower_char c)"
  by (auto simp: is_ascii_alnum_def ToLower_char_def)

lemma is_ascii_separator_ToLower_char: "is_ascii_separator c \<Longrightarrow> ToLower_char c = c"
  by (auto simp: is_ascii_separator_def is_ascii_alnum_def ToLower_char_def)

lemma tokenizeWords_split:
  assumes "is_ascii_separator c"
  shows "tokenizeWords (a @ c # b) = tokenizeWords a @ tokenizeWords b"
proof -
  from assms have asc: "(of_char c :: nat) < 128" and sep: "is_separator c"
    by (simp_all add: is_ascii_separator_def is_ascii_alnum_separator)
  have "ToLower (a @ c # b) = ToLower a @ c # ToLower b"
    using ToLower_append_ascii [OF asc] is_ascii_separator_ToLower_char [OF assms] by simp
  then show ?thesis
    using sep by (simp add: tokenizeWords_filter FieldsFunc_def fields_loop_split)
qed

lemma tokenizeWords_word:
  assumes "\<forall>c\<in>set u. is_ascii_alnum c"
  shows "tokenizeWords u =
           (if survives (map ToLower_char u) then [map ToLower_char u] else [])"
proof -
  from assms have "ToLower u = map ToLower_char u"
    by (intro ToLower_ascii) (blast dest: is_ascii_alnum_ascii)
  moreover from assms have "\<forall>c\<in>set (map ToLower_char u). \<not> is_separator c"
    by (auto simp: is_ascii_alnum_separator is_ascii_alnum_ToLower_char)
  then have "fields_loop is_separator [] (map ToLower_char u @ []) =
        fields_loop is_separator ([] @ map ToLower_char u) []"
    by (rule fields_loop_word)
  ultimately show ?thesis
    by (auto simp: tokenizeWords_filter FieldsFunc_def survives_def)
qed

lemma space_is_ascii_separator: "is_ascii_separator (CHR '' '')"
  by (simp add: is_ascii_separator_def is_ascii_alnum_def)

lemma tokenizeWords_join:
  "\<forall>w\<in>set ws. \<forall>c\<in>set w. is_ascii_alnum c \<Longrightarrow>
   tokenizeWords (join_words ws) = filter survives (map (map ToLower_char) ws)"
proof (induction ws rule: join_words.induct)
  case 1
  then show ?case by (simp add: tokenizeWords_filter FieldsFunc_def)
next
  case (2 w)
  then show ?case by (simp add: tokenizeWords_word)
next
  case (3 w v ws)
  then show ?case
    by (simp add: tokenizeWords_split [OF space_is_ascii_separator] tokenizeWords_word)
qed

text \<open>The tokenizer on the concrete queries.\<close>

lemma tok_kelvin: "tokenizeWords kelvin_query = [''kelvin'', ''kelvin'']"
  unfolding kelvin_query_def by code_simp

lemma tok_kelvin9: "tokenizeWords kelvin9_query = [''k9'']"
  unfolding kelvin9_query_def by code_simp

lemma tok_stop: "tokenizeWords dotted_stop_query = []"
  unfolding dotted_stop_query_def by code_simp

lemma tok_trinity: "tokenizeWords ''trinity'' = [''trinity'']"
  by code_simp

lemma lower_grace_words:
  "map (map ToLower_char) [''Grace'', ''the'', ''GRACE'', ''Faith'', ''grace'']
     = [''grace'', ''the'', ''grace'', ''faith'', ''grace'']"
  "map ToLower_char ''GRACE'' = ''grace''"
  by code_simp+

subsection \<open>C10: the tokenizer does not deduplicate\<close>

text \<open>
  C10. The tokenizer keeps every occurrence. For every query its output is the list of
  the fields of the lower-cased query with the short words and the stop words filtered
  out, in order, so a surviving token occurs in the output as often as it occurs among
  the fields. The token lists of the two parts of a query around an ASCII separator are
  concatenated, nothing being merged or dropped across the separator; a single word of
  ASCII letters and digits yields its lower case, once, if that survives; hence a query
  of such words (in any case) separated by single spaces yields the lower-cased
  surviving words one by one, repetitions included.
\<close>

theorem tokenizeWords_keeps_occurrences:
  "tokenizeWords q = filter survives (FieldsFunc (ToLower q) is_separator)
   \<and> (survives w \<longrightarrow>
        count_list (tokenizeWords q) w = count_list (FieldsFunc (ToLower q) is_separator) w)
   \<and> (is_ascii_separator c \<longrightarrow>
        tokenizeWords (a @ c # b) = tokenizeWords a @ tokenizeWords b)
   \<and> ((\<forall>c\<in>set u. is_ascii_alnum c) \<longrightarrow>
        tokenizeWords u = (if survives (map ToLower_char u) then [map ToLower_char u] else []))
   \<and> ((\<forall>w\<in>set ws. \<forall>c\<in>set w. is_ascii_alnum c) \<longrightarrow>
        tokenizeWords (join_words ws) = filter survives (map (map ToLower_char) ws))"
proof (intro conjI impI)
  show "tokenizeWords q = filter survives (FieldsFunc (ToLower q) is_separator)"
    by (rule tokenizeWords_filter)
next
  assume "survives w"
  then show "count_list (tokenizeWords q) w = count_list (FieldsFunc (ToLower q) is_separator) w"
    by (simp add: tokenizeWords_filter count_list_filter)
next
  assume "is_ascii_separator c"
  then show "tokenizeWords (a @ c # b) = tokenizeWords a @ tokenizeWords b"
    by (rule tokenizeWords_split)
next
  assume "\<forall>c\<in>set u. is_ascii_alnum c"
  then show "tokenizeWords u =
      (if survives (map ToLower_char u) then [map ToLower_char u] else [])"
    by (rule tokenizeWords_word)
next
  assume "\<forall>w\<in>set ws. \<forall>c\<in>set w. is_ascii_alnum c"
  then show "tokenizeWords (join_words ws) = filter survives (map (map ToLower_char) ws)"
    by (rule tokenizeWords_join)
qed

theorem tokenizeWords_keeps_occurrences_witness:
  "survives ''kelvin''
   \<and> tokenizeWords kelvin_query = [''kelvin'', ''kelvin'']
   \<and> count_list (FieldsFunc (ToLower kelvin_query) is_separator) ''kelvin'' = 2
   \<and> is_ascii_separator (CHR '','')
   \<and> tokenizeWords (''Grace'' @ CHR '','' # ''GRACE'') = [''grace'', ''grace'']
   \<and> tokenizeWords ''GRACE'' = [''grace'']
   \<and> tokenizeWords ''Grace the GRACE Faith grace'' = [''grace'', ''grace'', ''faith'', ''grace'']"
proof -
  let ?ws = "[''Grace'', ''the'', ''GRACE'', ''Faith'', ''grace'']"
  note T = tokenizeWords_keeps_occurrences
             [of kelvin_query "''kelvin''" "CHR '',''" "''Grace''" "''GRACE''" "''GRACE''" ?ws]
  have h1: "survives ''kelvin''" and sg: "survives ''grace''"
    by (simp_all add: survives_def stopWords_def stopWords_keys_def)
  have h2: "is_ascii_separator (CHR '','')"
    by (simp add: is_ascii_separator_def is_ascii_alnum_def)
  have h3: "\<forall>c\<in>set ''GRACE''. is_ascii_alnum c"
    by (simp add: is_ascii_alnum_def)
  have h4: "\<forall>w\<in>set ?ws. \<forall>c\<in>set w. is_ascii_alnum c"
    by (simp add: is_ascii_alnum_def)
  have j: "join_words ?ws = ''Grace the GRACE Faith grace''" by simp
  have f: "filter survives [''grace'', ''the'', ''grace'', ''faith'', ''grace'']
             = [''grace'', ''grace'', ''faith'', ''grace'']"
    by (simp add: survives_def stopWords_def stopWords_keys_def)
  from T h1 have "count_list (tokenizeWords kelvin_query) ''kelvin''
      = count_list (FieldsFunc (ToLower kelvin_query) is_separator) ''kelvin''" by blast
  then have a: "count_list (FieldsFunc (ToLower kelvin_query) is_separator) ''kelvin'' = 2"
    by (simp add: tok_kelvin)
  from T h3 have "tokenizeWords ''GRACE'' =
      (if survives (map ToLower_char ''GRACE'') then [map ToLower_char ''GRACE''] else [])"
    by blast
  then have b: "tokenizeWords ''GRACE'' = [''grace'']"
    unfolding lower_grace_words using sg by simp
  from T h4 have "tokenizeWords (join_words ?ws) = filter survives (map (map ToLower_char) ?ws)"
    by blast
  then have c: "tokenizeWords ''Grace the GRACE Faith grace''
      = [''grace'', ''grace'', ''faith'', ''grace'']"
    unfolding j lower_grace_words f .
  have g: "tokenizeWords ''Grace'' = [''grace'']" by code_simp
  from T h2 have "tokenizeWords (''Grace'' @ CHR '','' # ''GRACE'')
      = tokenizeWords ''Grace'' @ tokenizeWords ''GRACE''" by blast
  then have d: "tokenizeWords (''Grace'' @ CHR '','' # ''GRACE'') = [''grace'', ''grace'']"
    unfolding g b by simp
  from h1 h2 a b c d tok_kelvin show ?thesis by blast
qed

subsection \<open>The service and the handlers by cases\<close>

lemma SearchVersesCitations_cases:
  "SearchVersesCitations p tr q k = (r, tr') \<Longrightarrow>
   (\<exists>e. EmbedQuery p q = Inl e \<and> r = Inl e \<and> tr' = tr @ [EmbedQueryCall q])
   \<or> (\<exists>emb e. EmbedQuery p q = Inr emb \<and> SearchVersesByEmbedding p emb k = Inl e \<and> r = Inl e
         \<and> tr' = tr @ [EmbedQueryCall q, SearchVersesByEmbeddingCall emb k])
   \<or> (\<exists>emb svs. EmbedQuery p q = Inr emb \<and> SearchVersesByEmbedding p emb k = Inr svs
         \<and> r = Inr (Slice (map to_Citation (elems svs)))
         \<and> tr' = tr @ [EmbedQueryCall q, SearchVersesByEmbeddingCall emb k])"
  by (auto simp: SearchVersesCitations_def SearchVerses_def len_def fill_citations_all
      split: sum.splits)

lemma SearchTopics_cases:
  "SearchTopics p tr q k = (r, tr') \<Longrightarrow>
   (tokenizeWords q = [] \<and> r = Inr (Slice []) \<and> tr' = tr)
   \<or> (tokenizeWords q \<noteq> [] \<and> tr' = tr @ [SearchByWordsCall (tokenizeWords q) k]
       \<and> ((\<exists>e. SearchByWords p (tokenizeWords q) k = Inl e \<and> r = Inl e)
          \<or> (\<exists>res. SearchByWords p (tokenizeWords q) k = Inr res
                \<and> r = Inr (Slice (map to_ScoredTopic (elems res))))))"
  by (auto simp: SearchTopics_def Let_def len_def fill_topics_all split: sum.splits if_splits)

lemma SearchTopics_empty:
  "tokenizeWords q = [] \<Longrightarrow> SearchTopics p tr q k = (Inr (Slice []), tr)"
  by (simp add: SearchTopics_def)

lemma limit_resolved:
  "(if l \<le> 0 \<or> l > 50 then d else l) = resolved_limit d l"
  by (auto simp: resolved_limit_def)

text \<open>The handler, with the limits resolved and the service results named.\<close>

lemma HybridSearch_Some:
  "HybridSearch p (Some req) =
     (if hq_Query req = [] then (Inl (HTTPError 400 ''Query is required''), [])
      else (case SearchVersesCitations p [] (hq_Query req)
                   (resolved_limit 10 (hq_VerseLimit req)) of
              (Inl e, tr) \<Rightarrow> (Inl (HTTPError 500 (''Search failed: '' @ e)), tr)
            | (Inr citations, tr) \<Rightarrow>
                (case SearchTopics p tr (hq_Query req) (resolved_limit 5 (hq_TopicLimit req)) of
                   (Inl e, tr') \<Rightarrow>
                     (Inr \<lparr>hr_Query = hq_Query req, hr_TopicCard = None,
                           hr_ResourceMatches = \<lparr>Topics = Slice []\<rparr>,
                           hr_SemanticMatches = \<lparr>Verses = citations\<rparr>\<rparr>,
                      tr' @ [Warnf (''Topic search failed: '' @ e)])
                 | (Inr topics, tr') \<Rightarrow>
                     (Inr \<lparr>hr_Query = hq_Query req, hr_TopicCard = None,
                           hr_ResourceMatches = \<lparr>Topics = topics\<rparr>,
                           hr_SemanticMatches = \<lparr>Verses = citations\<rparr>\<rparr>,
                      tr'))))"
  by (simp add: HybridSearch_def Let_def limit_resolved)

lemma SemanticSearch_Some:
  "SemanticSearch p (Some req) =
     (if sq_Query req = [] then (Inl (HTTPError 400 ''Query is required''), [])
      else (case SearchVersesCitations p [] (sq_Query req) (resolved_limit 10 (sq_Limit req)) of
              (Inl e, tr) \<Rightarrow> (Inl (HTTPError 500 (''Search failed: '' @ e)), tr)
            | (Inr citations, tr) \<Rightarrow>
                (Inr \<lparr>sr_Query = sq_Query req, sr_Results = citations\<rparr>, tr)))"
  by (simp add: SemanticSearch_def Let_def limit_resolved)

lemma resolved_limit_idem: "resolved_limit d (resolved_limit d l) = resolved_limit d l"
  by (simp add: resolved_limit_def)

subsection \<open>Runs of the handler on the concrete ports\<close>

lemma demo_citations:
  "SearchVersesCitations demo_ports [] q 10 =
     (Inr (Slice (map to_Citation demo_verses)),
      [EmbedQueryCall q, SearchVersesByEmbeddingCall [1, 0] 10])"
  by (simp add: SearchVersesCitations_def SearchVerses_def demo_ports_def len_def
      fill_citations_all)

lemma dotted_stop_query_nonempty: "dotted_stop_query \<noteq> []"
  by (simp add: dotted_stop_query_def)

lemma demo_stopword_run:
  "HybridSearch demo_ports (Some stopword_request) =
     (Inr \<lparr>hr_Query = dotted_stop_query, hr_TopicCard = None,
           hr_ResourceMatches = \<lparr>Topics = Slice []\<rparr>,
           hr_SemanticMatches = \<lparr>Verses = Slice (map to_Citation demo_verses)\<rparr>\<rparr>,
      [EmbedQueryCall dotted_stop_query, SearchVersesByEmbeddingCall [1, 0] 10])"
  by (simp add: HybridSearch_Some stopword_request_def resolved_limit_def demo_citations
      SearchTopics_empty tok_stop dotted_stop_query_nonempty)

lemma demo_kelvin9_topics:
  "SearchTopics demo_ports tr kelvin9_query 5 =
     (Inl ''connection refused'', tr @ [SearchByWordsCall [''k9''] 5])"
  by (simp add: SearchTopics_def tok_kelvin9 demo_ports_def)

lemma trinity_citations:
  "SearchVersesCitations trinity_ports [] q 10 =
     (Inr (Slice (map to_Citation demo_verses)),
      [EmbedQueryCall q, SearchVersesByEmbeddingCall [1, 0] 10])"
  by (simp add: SearchVersesCitations_def SearchVerses_def trinity_ports_def len_def
      fill_citations_all)

lemma trinity_topics:
  "SearchTopics trinity_ports tr ''trinity'' 5 =
     (Inr (Slice [to_ScoredTopic trinity_naves, to_ScoredTopic trinity_claude]),
      tr @ [SearchByWordsCall [''trinity''] 5])"
  by (simp add: SearchTopics_def tok_trinity trinity_ports_def len_def fill_topics_all)

lemma trinity_run:
  "HybridSearch trinity_ports (Some trinity_request) =
     (Inr \<lparr>hr_Query = ''trinity'', hr_TopicCard = None,
           hr_ResourceMatches =
             \<lparr>Topics = Slice [to_ScoredTopic trinity_naves, to_ScoredTopic trinity_claude]\<rparr>,
           hr_SemanticMatches = \<lparr>Verses = Slice (map to_Citation demo_verses)\<rparr>\<rparr>,
      [EmbedQueryCall ''trinity'', SearchVersesByEmbeddingCall [1, 0] 10,
       SearchByWordsCall [''trinity''] 5])"
  by (simp add: HybridSearch_Some trinity_request_def resolved_limit_def trinity_citations
      trinity_topics)

lemma failing_run:
  "HybridSearch failing_ports (Some trinity_request) =
     (Inl (HTTPError 500 ''Search failed: embedding unavailable''), [EmbedQueryCall ''trinity''])"
  by (simp add: HybridSearch_Some trinity_request_def resolved_limit_def
      SearchVersesCitations_def SearchVerses_def failing_ports_def)

lemma demo_topics:
  "SearchTopics demo_ports tr ''trinity'' 5 =
     (Inl ''connection refused'', tr @ [SearchByWordsCall [''trinity''] 5])"
  by (simp add: SearchTopics_def tok_trinity demo_ports_def)

lemma demo_trinity_run:
  "HybridSearch demo_ports (Some trinity_request) =
     (Inr \<lparr>hr_Query = ''trinity'', hr_TopicCard = None,
           hr_ResourceMatches = \<lparr>Topics = Slice []\<rparr>,
           hr_SemanticMatches = \<lparr>Verses = Slice (map to_Citation demo_verses)\<rparr>\<rparr>,
      [EmbedQueryCall ''trinity'', SearchVersesByEmbeddingCall [1, 0] 10,
       SearchByWordsCall [''trinity''] 5, Warnf ''Topic search failed: connection refused''])"
  by (simp add: HybridSearch_Some trinity_request_def resolved_limit_def demo_citations
      demo_topics)

lemma empty_run:
  "HybridSearch empty_ports (Some trinity_request) =
     (Inr \<lparr>hr_Query = ''trinity'', hr_TopicCard = None,
           hr_ResourceMatches = \<lparr>Topics = Slice []\<rparr>,
           hr_SemanticMatches = \<lparr>Verses = Slice []\<rparr>\<rparr>,
      [EmbedQueryCall ''trinity'', SearchVersesByEmbeddingCall [1, 0] 10,
       SearchByWordsCall [''trinity''] 5])"
  by (simp add: HybridSearch_Some trinity_request_def resolved_limit_def
      SearchVersesCitations_def SearchVerses_def SearchTopics_def tok_trinity empty_ports_def
      len_def)

subsection \<open>C7: an empty tokenization skips the keyword port\<close>

lemma tokenizeWords_empty_iff:
  "(tokenizeWords query = []) =
     (\<forall>w\<in>set (FieldsFunc (ToLower query) is_separator). length w < 2 \<or> stopWords w)"
  by (auto simp: tokenizeWords_filter filter_empty_conv survives_def)

lemma SearchTopics_nonempty_trace:
  "tokenizeWords query \<noteq> [] \<Longrightarrow>
   snd (SearchTopics p tr query topK) = tr @ [SearchByWordsCall (tokenizeWords query) topK]"
  by (simp add: SearchTopics_def Let_def split: sum.splits)

text \<open>
  C7. The tokenization of a query is empty exactly when every field of the lower-cased
  query (every maximal run of ASCII letters and digits) is shorter than two characters
  or a stop word. For such a query \<open>SearchTopics\<close> returns the empty (non-nil) topic list
  without error and leaves the trace as it was, so the keyword retrieval port is not
  invoked; in a hybrid search of such a query no call of \<open>SearchByWords\<close> occurs and the
  topic list of the response is empty. For every other query \<open>SearchTopics\<close> does invoke
  the port, once, with the tokens.
\<close>

theorem empty_tokenization_skips_keyword_port:
  "((tokenizeWords query = []) =
      (\<forall>w\<in>set (FieldsFunc (ToLower query) is_separator). length w < 2 \<or> stopWords w))
   \<and> (tokenizeWords query = [] \<longrightarrow>
        SearchTopics p tr query topK = (Inr (Slice []), tr)
      \<and> (\<forall>req::HybridSearchRequest. hq_Query req = query \<longrightarrow>
            (\<forall>ws k. SearchByWordsCall ws k \<notin> set (snd (HybridSearch p (Some req))))
          \<and> (\<forall>resp::HybridSearchResponse. fst (HybridSearch p (Some req)) = Inr resp \<longrightarrow>
                Topics (hr_ResourceMatches resp) = Slice [])))
   \<and> (tokenizeWords query \<noteq> [] \<longrightarrow>
        snd (SearchTopics p tr query topK) = tr @ [SearchByWordsCall (tokenizeWords query) topK])"
proof (intro conjI allI impI)
  show "(tokenizeWords query = []) =
      (\<forall>w\<in>set (FieldsFunc (ToLower query) is_separator). length w < 2 \<or> stopWords w)"
    by (rule tokenizeWords_empty_iff)
next
  assume "tokenizeWords query = []"
  then show "SearchTopics p tr query topK = (Inr (Slice []), tr)"
    by (rule SearchTopics_empty)
next
  fix req :: HybridSearchRequest and ws k
  assume e: "tokenizeWords query = []" and q: "hq_Query req = query"
  show "SearchByWordsCall ws k \<notin> set (snd (HybridSearch p (Some req)))"
    using e q
    by (auto simp: HybridSearch_Some SearchTopics_empty
        split: prod.splits sum.splits dest!: SearchVersesCitations_cases)
next
  fix req :: HybridSearchRequest and resp :: HybridSearchResponse
  assume e: "tokenizeWords query = []" and q: "hq_Query req = query"
    and r: "fst (HybridSearch p (Some req)) = Inr resp"
  show "Topics (hr_ResourceMatches resp) = Slice []"
    using e q r
    by (auto simp: HybridSearch_Some SearchTopics_empty
        split: prod.splits sum.splits if_splits)
next
  assume "tokenizeWords query \<noteq> []"
  then show "snd (SearchTopics p tr query topK)
      = tr @ [SearchByWordsCall (tokenizeWords query) topK]"
    by (rule SearchTopics_nonempty_trace)
qed

theorem empty_tokenization_skips_keyword_port_witness:
  "tokenizeWords dotted_stop_query = []
   \<and> SearchTopics demo_ports [] dotted_stop_query 5 = (Inr (Slice []), [])
   \<and> snd (HybridSearch demo_ports (Some stopword_request)) =
       [EmbedQueryCall dotted_stop_query, SearchVersesByEmbeddingCall [1, 0] 10]
   \<and> SearchByWordsCall [] 5 \<notin> set (snd (HybridSearch demo_ports (Some stopword_request)))
   \<and> fst (HybridSearch demo_ports (Some stopword_request)) =
       Inr \<lparr>hr_Query = dotted_stop_query, hr_TopicCard = None,
            hr_ResourceMatches = \<lparr>Topics = Slice []\<rparr>,
            hr_SemanticMatches = \<lparr>Verses = Slice (map to_Citation demo_verses)\<rparr>\<rparr>
   \<and> Topics (hr_ResourceMatches
        \<lparr>hr_Query = dotted_stop_query, hr_TopicCard = None,
         hr_ResourceMatches = \<lparr>Topics = Slice []\<rparr>,
         hr_SemanticMatches = \<lparr>Verses = Slice (map to_Citation demo_verses)\<rparr>\<rparr>) = Slice []
   \<and> FieldsFunc (ToLower dotted_stop_query) is_separator = [''the'', ''and'', ''with'']
   \<and> tokenizeWords kelvin9_query = [''k9'']
   \<and> snd (SearchTopics demo_ports [] kelvin9_query 5) = [SearchByWordsCall [''k9''] 5]"
proof -
  let ?r = "\<lparr>hr_Query = dotted_stop_query, hr_TopicCard = None,
            hr_ResourceMatches = \<lparr>Topics = Slice []\<rparr>,
            hr_SemanticMatches = \<lparr>Verses = Slice (map to_Citation demo_verses)\<rparr>\<rparr>"
  note T = empty_tokenization_skips_keyword_port [of dotted_stop_query demo_ports "[]" 5]
  note K = empty_tokenization_skips_keyword_port [of kelvin9_query demo_ports "[]" 5]
  have fields: "FieldsFunc (ToLower dotted_stop_query) is_separator = [''the'', ''and'', ''with'']"
    unfolding dotted_stop_query_def by code_simp
  have "\<forall>w\<in>set (FieldsFunc (ToLower dotted_stop_query) is_separator).
          length w < 2 \<or> stopWords w"
    unfolding fields by (simp add: stopWords_def stopWords_keys_def)
  with T have e: "tokenizeWords dotted_stop_query = []" by blast
  have q: "hq_Query stopword_request = dotted_stop_query"
    by (simp add: stopword_request_def)
  have f: "fst (HybridSearch demo_ports (Some stopword_request)) = Inr ?r"
    by (simp add: demo_stopword_run)
  from T e q have a: "SearchByWordsCall [] 5
      \<notin> set (snd (HybridSearch demo_ports (Some stopword_request)))"
    by blast
  from T e have b: "SearchTopics demo_ports [] dotted_stop_query 5 = (Inr (Slice []), [])"
    by blast
  from T e q f have c: "Topics (hr_ResourceMatches ?r) = Slice []"
    by blast
  have k: "tokenizeWords kelvin9_query = [''k9'']" by (rule tok_kelvin9)
  then have "tokenizeWords kelvin9_query \<noteq> []" by simp
  with K have "snd (SearchTopics demo_ports [] kelvin9_query 5)
      = [] @ [SearchByWordsCall (tokenizeWords kelvin9_query) 5]" by blast
  then have d: "snd (SearchTopics demo_ports [] kelvin9_query 5) = [SearchByWordsCall [''k9''] 5]"
    unfolding k by simp
  have t: "snd (HybridSearch demo_ports (Some stopword_request)) =
       [EmbedQueryCall dotted_stop_query, SearchVersesByEmbeddingCall [1, 0] 10]"
    by (simp add: demo_stopword_run)
  from e b t a f c fields k d show ?thesis by blast
qed

subsection \<open>C9: the keyword search runs only after the semantic search succeeded\<close>

text \<open>
  C9. In a hybrid search the channels run one after the other: a call of the keyword
  port occurs in the trace only as the third event, after the embedding call and the
  similarity search, both of which have returned successfully; whenever the semantic
  channel fails (the embedding or the similarity search), the keyword port is not called.
\<close>

theorem keyword_search_only_after_semantic_success:
  fixes req :: HybridSearchRequest
  shows "(\<forall>ws k. SearchByWordsCall ws k \<in> set (snd (HybridSearch p (Some req))) \<longrightarrow>
            (\<exists>emb svs rest.
                EmbedQuery p (hq_Query req) = Inr emb
              \<and> SearchVersesByEmbedding p emb (resolved_limit 10 (hq_VerseLimit req)) = Inr svs
              \<and> snd (HybridSearch p (Some req)) =
                  EmbedQueryCall (hq_Query req)
                  # SearchVersesByEmbeddingCall emb (resolved_limit 10 (hq_VerseLimit req))
                  # SearchByWordsCall ws k # rest))
       \<and> ((EmbedQuery p (hq_Query req) = Inl e
            \<or> (EmbedQuery p (hq_Query req) = Inr emb'
                \<and> SearchVersesByEmbedding p emb' (resolved_limit 10 (hq_VerseLimit req)) = Inl e))
           \<longrightarrow> (\<forall>ws k. SearchByWordsCall ws k \<notin> set (snd (HybridSearch p (Some req)))))"
proof (intro conjI allI impI)
  fix ws k
  assume "SearchByWordsCall ws k \<in> set (snd (HybridSearch p (Some req)))"
  then show "\<exists>emb svs rest.
                EmbedQuery p (hq_Query req) = Inr emb
              \<and> SearchVersesByEmbedding p emb (resolved_limit 10 (hq_VerseLimit req)) = Inr svs
              \<and> snd (HybridSearch p (Some req)) =
                  EmbedQueryCall (hq_Query req)
                  # SearchVersesByEmbeddingCall emb (resolved_limit 10 (hq_VerseLimit req))
                  # SearchByWordsCall ws k # rest"
    by (auto simp: HybridSearch_Some split: if_splits prod.splits sum.splits
        dest!: SearchVersesCitations_cases SearchTopics_cases)
next
  fix ws k
  assume "EmbedQuery p (hq_Query req) = Inl e
            \<or> (EmbedQuery p (hq_Query req) = Inr emb'
                \<and> SearchVersesByEmbedding p emb' (resolved_limit 10 (hq_VerseLimit req)) = Inl e)"
  then show "SearchByWordsCall ws k \<notin> set (snd (HybridSearch p (Some req)))"
    by (auto simp: HybridSearch_Some split: if_splits prod.splits sum.splits
        dest!: SearchVersesCitations_cases)
qed

theorem keyword_search_only_after_semantic_success_witness:
  "SearchByWordsCall [''trinity''] 5 \<in> set (snd (HybridSearch trinity_ports (Some trinity_request)))
   \<and> EmbedQuery trinity_ports ''trinity'' = Inr [1, 0]
   \<and> SearchVersesByEmbedding trinity_ports [1, 0] 10 = Inr (Slice demo_verses)
   \<and> snd (HybridSearch trinity_ports (Some trinity_request)) =
       [EmbedQueryCall ''trinity'', SearchVersesByEmbeddingCall [1, 0] 10,
        SearchByWordsCall [''trinity''] 5]
   \<and> EmbedQuery failing_ports ''trinity'' = Inl ''embedding unavailable''
   \<and> SearchByWordsCall [''trinity''] 5 \<notin> set (snd (HybridSearch failing_ports (Some trinity_request)))"
proof -
  have a: "SearchByWordsCall [''trinity''] 5
             \<in> set (snd (HybridSearch trinity_ports (Some trinity_request)))"
    by (simp add: trinity_run)
  have b': "EmbedQuery failing_ports ''trinity'' = Inl ''embedding unavailable''"
    by (simp add: failing_ports_def)
  then have b: "EmbedQuery failing_ports (hq_Query trinity_request) = Inl ''embedding unavailable''"
    by (simp add: trinity_request_def)
  from keyword_search_only_after_semantic_success
         [of trinity_ports trinity_request "''x''" "[]"] a
  obtain emb svs rest where
    "EmbedQuery trinity_ports (hq_Query trinity_request) = Inr emb"
    "SearchVersesByEmbedding trinity_ports emb (resolved_limit 10 (hq_VerseLimit trinity_request))
       = Inr svs"
    "snd (HybridSearch trinity_ports (Some trinity_request)) =
       EmbedQueryCall (hq_Query trinity_request)
       # SearchVersesByEmbeddingCall emb (resolved_limit 10 (hq_VerseLimit trinity_request))
       # SearchByWordsCall [''trinity''] 5 # rest"
    by blast
  then have c: "EmbedQuery trinity_ports ''trinity'' = Inr [1, 0]
      \<and> SearchVersesByEmbedding trinity_ports [1, 0] 10 = Inr (Slice demo_verses)"
    by (simp add: trinity_request_def trinity_ports_def)
  from keyword_search_only_after_semantic_success
         [of failing_ports trinity_request "''embedding unavailable''" "[]"] b
  have d: "SearchByWordsCall [''trinity''] 5
             \<notin> set (snd (HybridSearch failing_ports (Some trinity_request)))"
    by blast
  from a b' c d show ?thesis by (simp add: trinity_run)
qed

subsection \<open>C3: failure asymmetry\<close>

text \<open>
  C3. With \<open>q\<close> the query of a bound request and the limits resolved: if the semantic
  channel fails (the embedding, or the similarity search), the handler returns an error
  and no response; if the semantic channel succeeds on a non-empty query and the keyword
  port fails, the handler still returns the complete response, with the citations of the
  semantic channel and the empty topic list.
\<close>

theorem hybrid_search_failure_asymmetric:
  fixes req :: HybridSearchRequest
  assumes "q = hq_Query req"
    and "vlim = resolved_limit 10 (hq_VerseLimit req)"
    and "tlim = resolved_limit 5 (hq_TopicLimit req)"
  shows "((EmbedQuery p q = Inl e \<or> (EmbedQuery p q = Inr emb \<and> SearchVersesByEmbedding p emb vlim = Inl e))
            \<longrightarrow> fst (HybridSearch p (Some req)) =
                  Inl (if q = [] then HTTPError 400 ''Query is required''
                       else HTTPError 500 (''Search failed: '' @ e)))
       \<and> ((q \<noteq> [] \<and> EmbedQuery p q = Inr emb \<and> SearchVersesByEmbedding p emb vlim = Inr svs
             \<and> SearchByWords p (tokenizeWords q) tlim = Inl e')
            \<longrightarrow> fst (HybridSearch p (Some req)) =
                  Inr \<lparr>hr_Query = q, hr_TopicCard = None,
                       hr_ResourceMatches = \<lparr>Topics = Slice []\<rparr>,
                       hr_SemanticMatches = \<lparr>Verses = Slice (map to_Citation (elems svs))\<rparr>\<rparr>)"
proof (intro conjI impI)
  assume "EmbedQuery p q = Inl e \<or> (EmbedQuery p q = Inr emb \<and> SearchVersesByEmbedding p emb vlim = Inl e)"
  then show "fst (HybridSearch p (Some req)) =
                  Inl (if q = [] then HTTPError 400 ''Query is required''
                       else HTTPError 500 (''Search failed: '' @ e))"
    using assms
    by (auto simp: HybridSearch_Some split: if_splits prod.splits sum.splits
        dest!: SearchVersesCitations_cases)
next
  assume "q \<noteq> [] \<and> EmbedQuery p q = Inr emb \<and> SearchVersesByEmbedding p emb vlim = Inr svs
             \<and> SearchByWords p (tokenizeWords q) tlim = Inl e'"
  then show "fst (HybridSearch p (Some req)) =
                  Inr \<lparr>hr_Query = q, hr_TopicCard = None,
                       hr_ResourceMatches = \<lparr>Topics = Slice []\<rparr>,
                       hr_SemanticMatches = \<lparr>Verses = Slice (map to_Citation (elems svs))\<rparr>\<rparr>"
    using assms
    by (auto simp: HybridSearch_Some split: if_splits prod.splits sum.splits
        dest!: SearchVersesCitations_cases SearchTopics_cases)
qed

theorem hybrid_search_failure_asymmetric_witness:
  "EmbedQuery failing_ports ''trinity'' = Inl ''embedding unavailable''
   \<and> fst (HybridSearch failing_ports (Some trinity_request)) =
        Inl (HTTPError 500 ''Search failed: embedding unavailable'')
   \<and> EmbedQuery demo_ports ''trinity'' = Inr [1, 0]
   \<and> SearchVersesByEmbedding demo_ports [1, 0] 10 = Inr (Slice demo_verses)
   \<and> SearchByWords demo_ports (tokenizeWords ''trinity'') 5 = Inl ''connection refused''
   \<and> fst (HybridSearch demo_ports (Some trinity_request)) =
        Inr \<lparr>hr_Query = ''trinity'', hr_TopicCard = None,
             hr_ResourceMatches = \<lparr>Topics = Slice []\<rparr>,
             hr_SemanticMatches = \<lparr>Verses = Slice (map to_Citation demo_verses)\<rparr>\<rparr>"
proof -
  have q: "''trinity'' = hq_Query trinity_request"
    and v: "10 = resolved_limit 10 (hq_VerseLimit trinity_request)"
    and t: "5 = resolved_limit 5 (hq_TopicLimit trinity_request)"
    by (simp_all add: trinity_request_def resolved_limit_def)
  have a: "EmbedQuery failing_ports ''trinity'' = Inl ''embedding unavailable''"
    by (simp add: failing_ports_def)
  have b: "EmbedQuery demo_ports ''trinity'' = Inr [1, 0]"
    "SearchVersesByEmbedding demo_ports [1, 0] 10 = Inr (Slice demo_verses)"
    "SearchByWords demo_ports (tokenizeWords ''trinity'') 5 = Inl ''connection refused''"
    by (simp_all add: demo_ports_def)
  from hybrid_search_failure_asymmetric [OF q v t, of failing_ports "''embedding unavailable''"] a
  have c: "fst (HybridSearch failing_ports (Some trinity_request)) =
        Inl (HTTPError 500 ''Search failed: embedding unavailable'')"
    by simp
  from hybrid_search_failure_asymmetric
         [OF q v t, of demo_ports _ "[1, 0]" "Slice demo_verses" "''connection refused''"] b
  have d: "fst (HybridSearch demo_ports (Some trinity_request)) =
        Inr \<lparr>hr_Query = ''trinity'', hr_TopicCard = None,
             hr_ResourceMatches = \<lparr>Topics = Slice []\<rparr>,
             hr_SemanticMatches = \<lparr>Verses = Slice (map to_Citation demo_verses)\<rparr>\<rparr>"
    by simp
  from a b c d show ?thesis by simp
qed

subsection \<open>C5: limits are resolved before dispatch\<close>

text \<open>
  C5. A requested limit outside [1,50] resolves to the default (10 for verses, 5 for
  topics) and one inside [1,50] to itself; each handler behaves on a bound request
  exactly as it does on the same request with its limits replaced by the resolved ones
  (so an out-of-range limit is never a reason to reject), and every retrieval call it
  makes carries the resolved limit, never the requested out-of-range value.
\<close>

theorem limits_resolved_before_dispatch:
  fixes req :: HybridSearchRequest and sreq :: SemanticSearchRequest
  shows "(L < 1 \<or> 50 < L \<longrightarrow> resolved_limit 10 L = 10 \<and> resolved_limit 5 L = 5)
       \<and> (1 \<le> L \<and> L \<le> 50 \<longrightarrow> resolved_limit 10 L = L \<and> resolved_limit 5 L = L)
       \<and> SemanticSearch p (Some sreq) =
           SemanticSearch p (Some (sreq\<lparr>sq_Limit := resolved_limit 10 (sq_Limit sreq)\<rparr>))
       \<and> HybridSearch p (Some req) =
           HybridSearch p (Some (req\<lparr>hq_VerseLimit := resolved_limit 10 (hq_VerseLimit req),
                                      hq_TopicLimit := resolved_limit 5 (hq_TopicLimit req)\<rparr>))
       \<and> (\<forall>emb k. SearchVersesByEmbeddingCall emb k \<in> set (snd (SemanticSearch p (Some sreq)))
             \<longrightarrow> k = resolved_limit 10 (sq_Limit sreq))
       \<and> (\<forall>emb k. SearchVersesByEmbeddingCall emb k \<in> set (snd (HybridSearch p (Some req)))
             \<longrightarrow> k = resolved_limit 10 (hq_VerseLimit req))
       \<and> (\<forall>ws k. SearchByWordsCall ws k \<in> set (snd (HybridSearch p (Some req)))
             \<longrightarrow> k = resolved_limit 5 (hq_TopicLimit req))"
proof (intro conjI allI impI)
  assume "L < 1 \<or> 50 < L"
  then show "resolved_limit 10 L = 10" "resolved_limit 5 L = 5"
    by (auto simp: resolved_limit_def)
next
  assume "1 \<le> L \<and> L \<le> 50"
  then show "resolved_limit 10 L = L" "resolved_limit 5 L = L"
    by (auto simp: resolved_limit_def)
next
  show "SemanticSearch p (Some sreq) =
           SemanticSearch p (Some (sreq\<lparr>sq_Limit := resolved_limit 10 (sq_Limit sreq)\<rparr>))"
    by (simp add: SemanticSearch_Some resolved_limit_idem split: prod.splits sum.splits)
next
  show "HybridSearch p (Some req) =
           HybridSearch p (Some (req\<lparr>hq_VerseLimit := resolved_limit 10 (hq_VerseLimit req),
                                      hq_TopicLimit := resolved_limit 5 (hq_TopicLimit req)\<rparr>))"
    by (simp add: HybridSearch_Some resolved_limit_idem split: prod.splits sum.splits)
next
  fix emb k
  assume "SearchVersesByEmbeddingCall emb k \<in> set (snd (SemanticSearch p (Some sreq)))"
  then show "k = resolved_limit 10 (sq_Limit sreq)"
    by (auto simp: SemanticSearch_Some split: if_splits prod.splits sum.splits
        dest!: SearchVersesCitations_cases)
next
  fix emb k
  assume "SearchVersesByEmbeddingCall emb k \<in> set (snd (HybridSearch p (Some req)))"
  then show "k = resolved_limit 10 (hq_VerseLimit req)"
    by (auto simp: HybridSearch_Some split: if_splits prod.splits sum.splits
        dest!: SearchVersesCitations_cases SearchTopics_cases)
next
  fix ws k
  assume "SearchByWordsCall ws k \<in> set (snd (HybridSearch p (Some req)))"
  then show "k = resolved_limit 5 (hq_TopicLimit req)"
    by (auto simp: HybridSearch_Some split: if_splits prod.splits sum.splits
        dest!: SearchVersesCitations_cases SearchTopics_cases)
qed

theorem limits_resolved_before_dispatch_witness:
  "((1000::int) < 1 \<or> 50 < (1000::int))
   \<and> resolved_limit 10 1000 = 10 \<and> resolved_limit 5 1000 = 5
   \<and> ((1::int) \<le> 7 \<and> (7::int) \<le> 50)
   \<and> resolved_limit 10 7 = 7 \<and> resolved_limit 5 7 = 7
   \<and> HybridSearch trinity_ports (Some wild_request) = HybridSearch trinity_ports (Some trinity_request)
   \<and> snd (HybridSearch trinity_ports (Some wild_request)) =
       [EmbedQueryCall ''trinity'', SearchVersesByEmbeddingCall [1, 0] 10,
        SearchByWordsCall [''trinity''] 5]
   \<and> resolved_limit 10 (hq_VerseLimit wild_request) = 10
   \<and> resolved_limit 5 (hq_TopicLimit wild_request) = 5
   \<and> snd (SemanticSearch trinity_ports (Some wild_srequest)) =
       [EmbedQueryCall ''trinity'', SearchVersesByEmbeddingCall [1, 0] 10]
   \<and> resolved_limit 10 (sq_Limit wild_srequest) = 10"
proof -
  note T = limits_resolved_before_dispatch [of 1000 trinity_ports wild_srequest wild_request]
  note T7 = limits_resolved_before_dispatch [of 7 trinity_ports wild_srequest wild_request]
  have r: "wild_request\<lparr>hq_VerseLimit := resolved_limit 10 (hq_VerseLimit wild_request),
                         hq_TopicLimit := resolved_limit 5 (hq_TopicLimit wild_request)\<rparr>
           = trinity_request"
    by (simp add: wild_request_def trinity_request_def resolved_limit_def)
  from T have "HybridSearch trinity_ports (Some wild_request) =
      HybridSearch trinity_ports
        (Some (wild_request\<lparr>hq_VerseLimit := resolved_limit 10 (hq_VerseLimit wild_request),
                              hq_TopicLimit := resolved_limit 5 (hq_TopicLimit wild_request)\<rparr>))"
    by blast
  then have a: "HybridSearch trinity_ports (Some wild_request)
      = HybridSearch trinity_ports (Some trinity_request)"
    unfolding r .
  then have tr: "snd (HybridSearch trinity_ports (Some wild_request)) =
       [EmbedQueryCall ''trinity'', SearchVersesByEmbeddingCall [1, 0] 10,
        SearchByWordsCall [''trinity''] 5]"
    by (simp add: trinity_run)
  from T have "SemanticSearch trinity_ports (Some wild_srequest) =
      SemanticSearch trinity_ports
        (Some (wild_srequest\<lparr>sq_Limit := resolved_limit 10 (sq_Limit wild_srequest)\<rparr>))"
    by blast
  then have b: "snd (SemanticSearch trinity_ports (Some wild_srequest)) =
       [EmbedQueryCall ''trinity'', SearchVersesByEmbeddingCall [1, 0] 10]"
    by (simp add: SemanticSearch_Some wild_srequest_def resolved_limit_def trinity_citations)
  from T have c: "resolved_limit 10 1000 = 10 \<and> resolved_limit 5 1000 = 5"
    by simp
  from T7 have d: "resolved_limit 10 7 = 7 \<and> resolved_limit 5 7 = 7"
    by simp
  have m1: "SearchVersesByEmbeddingCall [1, 0] 10
              \<in> set (snd (HybridSearch trinity_ports (Some wild_request)))"
    and m2: "SearchByWordsCall [''trinity''] 5
              \<in> set (snd (HybridSearch trinity_ports (Some wild_request)))"
    by (simp_all add: tr)
  have m3: "SearchVersesByEmbeddingCall [1, 0] 10
              \<in> set (snd (SemanticSearch trinity_ports (Some wild_srequest)))"
    by (simp add: b)
  from T m1 have e1: "10 = resolved_limit 10 (hq_VerseLimit wild_request)" by blast
  from T m2 have e2: "5 = resolved_limit 5 (hq_TopicLimit wild_request)" by blast
  from T m3 have e3: "10 = resolved_limit 10 (sq_Limit wild_srequest)" by blast
  from a tr b c d e1 e2 e3 show ?thesis by simp
qed

lemma HybridSearch_None:
  "HybridSearch p None = (Inl (HTTPError 400 ''Invalid request body''), [])"
  by (simp add: HybridSearch_def)

lemma SemanticSearch_None:
  "SemanticSearch p None = (Inl (HTTPError 400 ''Invalid request body''), [])"
  by (simp add: SemanticSearch_def)

lemma SearchVersesCitations_Slice:
  "SearchVersesCitations p tr q k = (Inr cits, tr') \<Longrightarrow> \<exists>cs. cits = Slice cs"
  by (auto dest!: SearchVersesCitations_cases)

lemma SearchTopics_Slice:
  "SearchTopics p tr q k = (Inr topics, tr') \<Longrightarrow> \<exists>ts. topics = Slice ts"
  by (auto dest!: SearchTopics_cases)

lemma HybridSearch_Inr_shape:
  assumes "fst (HybridSearch p bound) = Inr resp"
  shows "\<exists>req ts cs. bound = Some req
           \<and> resp = \<lparr>hr_Query = hq_Query req, hr_TopicCard = None,
                      hr_ResourceMatches = \<lparr>Topics = Slice ts\<rparr>,
                      hr_SemanticMatches = \<lparr>Verses = Slice cs\<rparr>\<rparr>"
proof (cases bound)
  case None
  with assms show ?thesis by (simp add: HybridSearch_None)
next
  case (Some req)
  from assms Some have ne: "hq_Query req \<noteq> []"
    by (auto simp: HybridSearch_Some)
  obtain r1 tr1 where c: "SearchVersesCitations p [] (hq_Query req)
      (resolved_limit 10 (hq_VerseLimit req)) = (r1, tr1)"
    by (cases "SearchVersesCitations p [] (hq_Query req) (resolved_limit 10 (hq_VerseLimit req))")
  show ?thesis
  proof (cases r1)
    case (Inl e)
    with assms Some ne c show ?thesis by (auto simp: HybridSearch_Some)
  next
    case (Inr cits)
    with c obtain cs where cs: "cits = Slice cs"
      by (blast dest: SearchVersesCitations_Slice)
    obtain r2 tr2 where t: "SearchTopics p tr1 (hq_Query req)
        (resolved_limit 5 (hq_TopicLimit req)) = (r2, tr2)"
      by (cases "SearchTopics p tr1 (hq_Query req) (resolved_limit 5 (hq_TopicLimit req))")
    show ?thesis
    proof (cases r2)
      case (Inl e)
      with assms Some ne c Inr cs t show ?thesis by (auto simp: HybridSearch_Some)
    next
      case r2: (Inr topics)
      with t obtain ts where "topics = Slice ts"
        by (blast dest: SearchTopics_Slice)
      with assms Some ne c Inr cs t r2 show ?thesis by (auto simp: HybridSearch_Some)
    qed
  qed
qed

lemma SemanticSearch_Inr_shape:
  assumes "fst (SemanticSearch p bound) = Inr resp"
  shows "\<exists>req cs. bound = Some req \<and> resp = \<lparr>sr_Query = sq_Query req, sr_Results = Slice cs\<rparr>"
proof (cases bound)
  case None
  with assms show ?thesis by (simp add: SemanticSearch_None)
next
  case (Some req)
  from assms Some have ne: "sq_Query req \<noteq> []"
    by (auto simp: SemanticSearch_Some)
  obtain r1 tr1 where c: "SearchVersesCitations p [] (sq_Query req)
      (resolved_limit 10 (sq_Limit req)) = (r1, tr1)"
    by (cases "SearchVersesCitations p [] (sq_Query req) (resolved_limit 10 (sq_Limit req))")
  show ?thesis
  proof (cases r1)
    case (Inl e)
    with assms Some ne c show ?thesis by (auto simp: SemanticSearch_Some)
  next
    case (Inr cits)
    with c obtain cs where cs: "cits = Slice cs"
      by (blast dest: SearchVersesCitations_Slice)
    with assms Some ne c Inr show ?thesis by (auto simp: SemanticSearch_Some)
  qed
qed

subsection \<open>C4: result lists in the output\<close>

text \<open>
  C4. In every successful response the result lists are non-nil lists:
  \<open>semantic_matches.verses\<close> of a hybrid response and \<open>results\<close> of a semantic response
  are always written, as an array that is empty when there are no matches; the topic
  list of a hybrid response is written as an array when it is non-empty and is left out
  of \<open>resource_matches\<close> when it is empty, by the \<open>omitempty\<close> tag of the field.
\<close>

theorem result_lists_in_the_output:
  fixes resp :: HybridSearchResponse and sresp :: SemanticSearchResponse
  shows "(fst (HybridSearch p bound) = Inr resp \<longrightarrow>
            (\<exists>ts cs. Topics (hr_ResourceMatches resp) = Slice ts
                  \<and> Verses (hr_SemanticMatches resp) = Slice cs
                  \<and> json_verses resp = Array cs
                  \<and> json_topics resp = (if ts = [] then Omitted else Array ts)))
       \<and> (fst (SemanticSearch p sbound) = Inr sresp \<longrightarrow>
            (\<exists>cs. sr_Results sresp = Slice cs \<and> json_results sresp = Array cs))"
proof (intro conjI impI)
  assume "fst (HybridSearch p bound) = Inr resp"
  then obtain req :: HybridSearchRequest and ts cs where
    "resp = \<lparr>hr_Query = hq_Query req, hr_TopicCard = None,
             hr_ResourceMatches = \<lparr>Topics = Slice ts\<rparr>,
             hr_SemanticMatches = \<lparr>Verses = Slice cs\<rparr>\<rparr>"
    by (blast dest: HybridSearch_Inr_shape)
  then have "Topics (hr_ResourceMatches resp) = Slice ts
                  \<and> Verses (hr_SemanticMatches resp) = Slice cs
                  \<and> json_verses resp = Array cs
                  \<and> json_topics resp = (if ts = [] then Omitted else Array ts)"
    by (simp add: json_verses_def json_topics_def marshal_plain_def marshal_omitempty_def
        len_def)
  then show "\<exists>ts cs. Topics (hr_ResourceMatches resp) = Slice ts
                  \<and> Verses (hr_SemanticMatches resp) = Slice cs
                  \<and> json_verses resp = Array cs
                  \<and> json_topics resp = (if ts = [] then Omitted else Array ts)"
    by blast
next
  assume "fst (SemanticSearch p sbound) = Inr sresp"
  then obtain req :: SemanticSearchRequest and cs where "sresp = \<lparr>sr_Query = sq_Query req, sr_Results = Slice cs\<rparr>"
    by (blast dest: SemanticSearch_Inr_shape)
  then have "sr_Results sresp = Slice cs \<and> json_results sresp = Array cs"
    by (simp add: json_results_def marshal_plain_def)
  then show "\<exists>cs. sr_Results sresp = Slice cs \<and> json_results sresp = Array cs"
    by blast
qed

theorem result_lists_in_the_output_witness:
  "fst (HybridSearch trinity_ports (Some trinity_request)) =
     Inr \<lparr>hr_Query = ''trinity'', hr_TopicCard = None,
           hr_ResourceMatches =
             \<lparr>Topics = Slice [to_ScoredTopic trinity_naves, to_ScoredTopic trinity_claude]\<rparr>,
           hr_SemanticMatches = \<lparr>Verses = Slice (map to_Citation demo_verses)\<rparr>\<rparr>
   \<and> json_topics \<lparr>hr_Query = ''trinity'', hr_TopicCard = None,
           hr_ResourceMatches =
             \<lparr>Topics = Slice [to_ScoredTopic trinity_naves, to_ScoredTopic trinity_claude]\<rparr>,
           hr_SemanticMatches = \<lparr>Verses = Slice (map to_Citation demo_verses)\<rparr>\<rparr>
       = Array [to_ScoredTopic trinity_naves, to_ScoredTopic trinity_claude]
   \<and> json_verses \<lparr>hr_Query = ''trinity'', hr_TopicCard = None,
           hr_ResourceMatches =
             \<lparr>Topics = Slice [to_ScoredTopic trinity_naves, to_ScoredTopic trinity_claude]\<rparr>,
           hr_SemanticMatches = \<lparr>Verses = Slice (map to_Citation demo_verses)\<rparr>\<rparr>
       = Array (map to_Citation demo_verses)
   \<and> fst (SemanticSearch trinity_ports (Some wild_srequest)) =
       Inr \<lparr>sr_Query = ''trinity'', sr_Results = Slice (map to_Citation demo_verses)\<rparr>
   \<and> json_results \<lparr>sr_Query = ''trinity'', sr_Results = Slice (map to_Citation demo_verses)\<rparr>
       = Array (map to_Citation demo_verses)"
proof -
  let ?r = "\<lparr>hr_Query = ''trinity'', hr_TopicCard = None,
           hr_ResourceMatches =
             \<lparr>Topics = Slice [to_ScoredTopic trinity_naves, to_ScoredTopic trinity_claude]\<rparr>,
           hr_SemanticMatches = \<lparr>Verses = Slice (map to_Citation demo_verses)\<rparr>\<rparr>"
  let ?s = "\<lparr>sr_Query = ''trinity'', sr_Results = Slice (map to_Citation demo_verses)\<rparr>"
  have a: "fst (HybridSearch trinity_ports (Some trinity_request)) = Inr ?r"
    by (simp add: trinity_run)
  have b: "fst (SemanticSearch trinity_ports (Some wild_srequest)) = Inr ?s"
    by (simp add: SemanticSearch_Some wild_srequest_def resolved_limit_def trinity_citations)
  note T = result_lists_in_the_output
             [of trinity_ports "Some trinity_request" ?r "Some wild_srequest" ?s]
  from T a obtain ts cs where "Topics (hr_ResourceMatches ?r) = Slice ts"
    "Verses (hr_SemanticMatches ?r) = Slice cs" "json_verses ?r = Array cs"
    "json_topics ?r = (if ts = [] then Omitted else Array ts)"
    by blast
  then have c: "json_topics ?r = Array [to_ScoredTopic trinity_naves, to_ScoredTopic trinity_claude]"
    and d: "json_verses ?r = Array (map to_Citation demo_verses)"
    by auto
  from T b obtain cs' where "sr_Results ?s = Slice cs'" "json_results ?s = Array cs'"
    by blast
  then have e: "json_results ?s = Array (map to_Citation demo_verses)"
    by auto
  from a b c d e show ?thesis by blast
qed

theorem empty_topics_omitted_counterexample:
  "HybridSearch empty_ports (Some trinity_request) =
     (Inr \<lparr>hr_Query = ''trinity'', hr_TopicCard = None,
           hr_ResourceMatches = \<lparr>Topics = Slice []\<rparr>,
           hr_SemanticMatches = \<lparr>Verses = Slice []\<rparr>\<rparr>,
      [EmbedQueryCall ''trinity'', SearchVersesByEmbeddingCall [1, 0] 10,
       SearchByWordsCall [''trinity''] 5])
   \<and> json_verses \<lparr>hr_Query = ''trinity'', hr_TopicCard = None,
           hr_ResourceMatches = \<lparr>Topics = Slice []\<rparr>,
           hr_SemanticMatches = \<lparr>Verses = Slice []\<rparr>\<rparr> = Array []
   \<and> json_topics \<lparr>hr_Query = ''trinity'', hr_TopicCard = None,
           hr_ResourceMatches = \<lparr>Topics = Slice []\<rparr>,
           hr_SemanticMatches = \<lparr>Verses = Slice []\<rparr>\<rparr> = Omitted
   \<and> json_topics \<lparr>hr_Query = ''trinity'', hr_TopicCard = None,
           hr_ResourceMatches = \<lparr>Topics = Slice []\<rparr>,
           hr_SemanticMatches = \<lparr>Verses = Slice []\<rparr>\<rparr> \<noteq> Array []"
  by (simp add: empty_run json_verses_def json_topics_def marshal_plain_def
      marshal_omitempty_def len_def)


lemma HybridSearch_no_GetTopicVerses:
  "GetTopicVersesCall tid k \<notin> set (snd (HybridSearch p bound))"
proof (cases bound)
  case None
  then show ?thesis by (simp add: HybridSearch_None)
next
  case (Some req)
  then show ?thesis
    by (auto simp: HybridSearch_Some split: if_splits prod.splits sum.splits
        dest!: SearchVersesCitations_cases SearchTopics_cases)
qed

lemma inner_loop_first:
  "st_Source t = s \<Longrightarrow> m \<le> st_Score t \<Longrightarrow>
   \<forall>u\<in>set pre. st_Source u \<noteq> s \<or> st_Score u < m \<Longrightarrow>
   inner_loop (pre @ t # post) s m = Some t"
  by (induction pre) auto

lemma inner_loop_Some:
  "inner_loop ts s m = Some t \<Longrightarrow> t \<in> set ts \<and> st_Source t = s \<and> m \<le> st_Score t"
  by (induction ts) (auto split: if_splits)

lemma inner_loop_None:
  "inner_loop ts s m = None \<Longrightarrow> \<forall>u\<in>set ts. \<not> (st_Source u = s \<and> m \<le> st_Score u)"
  by (induction ts) (auto split: if_splits)

lemma inner_loop_filter:
  "inner_loop ts s m =
     (case filter (\<lambda>t. st_Source t = s \<and> m \<le> st_Score t) ts of [] \<Rightarrow> None | t # _ \<Rightarrow> Some t)"
  by (induction ts) auto

lemma outer_loop_concat:
  "outer_loop ps ts m =
     (case concat (map (\<lambda>s. filter (\<lambda>t. st_Source t = s \<and> m \<le> st_Score t) ts) ps) of
        [] \<Rightarrow> None | t # _ \<Rightarrow> Some t)"
proof (induction ps)
  case Nil
  then show ?case by simp
next
  case (Cons s ps)
  show ?case
  proof (cases "filter (\<lambda>t. st_Source t = s \<and> m \<le> st_Score t) ts")
    case Nil
    then show ?thesis using Cons.IH by (simp add: inner_loop_filter)
  next
    case hit: (Cons t rest)
    then show ?thesis by (simp add: inner_loop_filter)
  qed
qed

lemma concat_map_Nil: "concat (map (\<lambda>s. []) ps) = []"
  by (induction ps) auto

lemma outer_loop_None:
  "outer_loop ps ts m = None \<Longrightarrow> \<forall>u\<in>set ts. m \<le> st_Score u \<longrightarrow> st_Source u \<notin> set ps"
proof (induction ps)
  case Nil
  then show ?case by simp
next
  case (Cons s ps)
  then show ?case
    by (auto split: option.splits dest: inner_loop_None)
qed

lemma outer_loop_Some:
  "outer_loop ps ts m = Some t \<Longrightarrow>
     t \<in> set ts \<and> m \<le> st_Score t \<and> st_Source t \<in> set ps
   \<and> (\<forall>u\<in>set ts. m \<le> st_Score u \<longrightarrow>
         length (takeWhile (\<lambda>p. p \<noteq> st_Source t) ps)
           \<le> length (takeWhile (\<lambda>p. p \<noteq> st_Source u) ps))"
proof (induction ps)
  case Nil
  then show ?case by simp
next
  case (Cons s ps)
  show ?case
  proof (cases "inner_loop ts s m")
    case None
    with Cons.prems have "outer_loop ps ts m = Some t" by simp
    from Cons.IH [OF this] inner_loop_None [OF None] show ?thesis
      by auto
  next
    case (Some t')
    with Cons.prems have "t' = t" by simp
    with inner_loop_Some [OF Some] show ?thesis by auto
  qed
qed

lemma selectedTopic_spec:
  "selectedTopic topics m = select_card_spec (elems topics) m"
proof (cases "elems topics")
  case Nil
  then show ?thesis
    by (simp add: selectedTopic_def select_card_spec_def concat_map_Nil)
next
  case (Cons t0 rest)
  define C where
    "C = concat (map (\<lambda>s. filter (\<lambda>t. st_Source t = s \<and> m \<le> st_Score t) (elems topics))
                   preferredSources)"
  have "selectedTopic topics m =
          (case C of [] \<Rightarrow> if m \<le> st_Score t0 then Some t0 else None | t # _ \<Rightarrow> Some t)"
    unfolding selectedTopic_def outer_loop_concat C_def [symmetric] using Cons
    by (simp split: list.splits)
  moreover have "select_card_spec (elems topics) m =
          (case C of [] \<Rightarrow> if m \<le> st_Score t0 then Some t0 else None | t # _ \<Rightarrow> Some t)"
    unfolding select_card_spec_def C_def [symmetric] using Cons
    by (simp split: list.splits)
  ultimately show ?thesis by simp
qed

lemma selectedTopic_mem:
  "selectedTopic topics m = Some t \<Longrightarrow> t \<in> set (elems topics) \<and> m \<le> st_Score t"
  by (auto simp: selectedTopic_def split: list.splits option.splits if_splits
      dest: outer_loop_Some)

lemma selectedTopic_preferred:
  assumes "t1 \<in> set (elems topics)" and "m \<le> st_Score t1"
    and "st_Source t1 \<in> set preferredSources"
  shows "\<exists>t. selectedTopic topics m = Some t \<and> t \<in> set (elems topics) \<and> m \<le> st_Score t
            \<and> (\<forall>u\<in>set (elems topics). m \<le> st_Score u \<longrightarrow>
                  source_rank (st_Source t) \<le> source_rank (st_Source u))"
proof -
  from assms obtain t where t: "outer_loop preferredSources (elems topics) m = Some t"
    by (cases "outer_loop preferredSources (elems topics) m") (auto dest: outer_loop_None)
  from assms(1) obtain t0 rest where "elems topics = t0 # rest"
    by (cases "elems topics") auto
  with t have "selectedTopic topics m = Some t"
    by (simp add: selectedTopic_def)
  with outer_loop_Some [OF t] show ?thesis
    by (auto simp: source_rank_def)
qed

lemma takeWhile_short_mem:
  "length (takeWhile (\<lambda>p. p \<noteq> s) ps) < length ps \<Longrightarrow> s \<in> set ps"
  by (induction ps) (auto split: if_splits)

lemma source_rank_mem:
  "source_rank s < length preferredSources \<Longrightarrow> s \<in> set preferredSources"
  unfolding source_rank_def by (rule takeWhile_short_mem)

lemma source_rank_le: "source_rank s \<le> length preferredSources"
  unfolding source_rank_def by (rule length_takeWhile_le)


lemma selectedTopic_None:
  "\<forall>t\<in>set (elems topics). st_Score t < m \<Longrightarrow> selectedTopic topics m = None"
proof (cases "selectedTopic topics m")
  case None
  then show ?thesis .
next
  case (Some t)
  assume "\<forall>t\<in>set (elems topics). st_Score t < m"
  with selectedTopic_mem [OF Some] show ?thesis by auto
qed

lemma GetTopicCard_spec:
  "GetTopicCard p tr topics minScore verseLimit =
     (case select_card_spec (elems topics) minScore of
        None \<Rightarrow> (Inr None, tr)
      | Some t \<Rightarrow>
          (case GetTopicVerses p (st_TopicID t) verseLimit of
             Inl e \<Rightarrow> (Inl e, tr @ [GetTopicVersesCall (st_TopicID t) verseLimit])
           | Inr verses \<Rightarrow>
               (Inr (Some (to_TopicCard t verses)),
                tr @ [GetTopicVersesCall (st_TopicID t) verseLimit])))"
  by (simp add: GetTopicCard_def selectedTopic_spec)

subsection \<open>C2: the topic card selector\<close>

text \<open>
  C2. \<open>GetTopicCard\<close> selects exactly the topic the specification describes
  (\<open>select_card_spec\<close>): the first qualifying topic in preference order of the sources
  and list order of the topics, else the first topic of the list if it reaches the
  minimum score, else none; the card is built from that topic and the fetched verses,
  and a failing fetch is returned as the error. Consequently, of two qualifying topics
  whose sources differ in rank the selected topic is never the one with the less
  preferred source, whatever the scores (and it is the other one when the list holds
  just these two); and when no topic reaches the minimum score, or the list is empty,
  nothing is selected and no verses are fetched.
\<close>

theorem topic_card_selection:
  fixes topics :: "ScoredTopic slice" and t1 t2 :: ScoredTopic
  shows "selectedTopic topics minScore = select_card_spec (elems topics) minScore
       \<and> GetTopicCard p tr topics minScore verseLimit =
           (case select_card_spec (elems topics) minScore of
              None \<Rightarrow> (Inr None, tr)
            | Some t \<Rightarrow>
                (case GetTopicVerses p (st_TopicID t) verseLimit of
                   Inl e \<Rightarrow> (Inl e, tr @ [GetTopicVersesCall (st_TopicID t) verseLimit])
                 | Inr verses \<Rightarrow>
                     (Inr (Some (to_TopicCard t verses)),
                      tr @ [GetTopicVersesCall (st_TopicID t) verseLimit])))
       \<and> (t1 \<in> set (elems topics) \<and> t2 \<in> set (elems topics)
            \<and> minScore \<le> st_Score t1 \<and> minScore \<le> st_Score t2
            \<and> source_rank (st_Source t1) < source_rank (st_Source t2)
          \<longrightarrow> (\<exists>t. selectedTopic topics minScore = Some t \<and> t \<in> set (elems topics)
                    \<and> source_rank (st_Source t) \<le> source_rank (st_Source t1) \<and> t \<noteq> t2)
              \<and> (set (elems topics) = {t1, t2} \<longrightarrow> selectedTopic topics minScore = Some t1))
       \<and> ((\<forall>t\<in>set (elems topics). st_Score t < minScore)
          \<longrightarrow> selectedTopic topics minScore = None
              \<and> GetTopicCard p tr topics minScore verseLimit = (Inr None, tr))
       \<and> (elems topics = []
          \<longrightarrow> selectedTopic topics minScore = None
              \<and> GetTopicCard p tr topics minScore verseLimit = (Inr None, tr))"
proof (intro conjI impI)
  show "selectedTopic topics minScore = select_card_spec (elems topics) minScore"
    by (rule selectedTopic_spec)
next
  show "GetTopicCard p tr topics minScore verseLimit =
           (case select_card_spec (elems topics) minScore of
              None \<Rightarrow> (Inr None, tr)
            | Some t \<Rightarrow>
                (case GetTopicVerses p (st_TopicID t) verseLimit of
                   Inl e \<Rightarrow> (Inl e, tr @ [GetTopicVersesCall (st_TopicID t) verseLimit])
                 | Inr verses \<Rightarrow>
                     (Inr (Some (to_TopicCard t verses)),
                      tr @ [GetTopicVersesCall (st_TopicID t) verseLimit])))"
    by (rule GetTopicCard_spec)
next
  assume a: "t1 \<in> set (elems topics) \<and> t2 \<in> set (elems topics)
            \<and> minScore \<le> st_Score t1 \<and> minScore \<le> st_Score t2
            \<and> source_rank (st_Source t1) < source_rank (st_Source t2)"
  then have "source_rank (st_Source t1) < length preferredSources"
    using source_rank_le [of "st_Source t2"] by simp
  then have "st_Source t1 \<in> set preferredSources"
    by (rule source_rank_mem)
  with a obtain t where t: "selectedTopic topics minScore = Some t" "t \<in> set (elems topics)"
    and least: "\<forall>u\<in>set (elems topics). minScore \<le> st_Score u \<longrightarrow>
                  source_rank (st_Source t) \<le> source_rank (st_Source u)"
    using selectedTopic_preferred [of t1 topics minScore] by blast
  from least a have le: "source_rank (st_Source t) \<le> source_rank (st_Source t1)"
    by blast
  with a have ne: "t \<noteq> t2" by auto
  from t le ne
  show "\<exists>t. selectedTopic topics minScore = Some t \<and> t \<in> set (elems topics)
            \<and> source_rank (st_Source t) \<le> source_rank (st_Source t1) \<and> t \<noteq> t2"
    by blast
  show "selectedTopic topics minScore = Some t1" if "set (elems topics) = {t1, t2}"
    using that t ne by auto
next
  assume "\<forall>t\<in>set (elems topics). st_Score t < minScore"
  then show n: "selectedTopic topics minScore = None"
    by (rule selectedTopic_None)
  then show "GetTopicCard p tr topics minScore verseLimit = (Inr None, tr)"
    by (simp add: GetTopicCard_def)
next
  assume "elems topics = []"
  then show n: "selectedTopic topics minScore = None"
    by (simp add: selectedTopic_def)
  then show "GetTopicCard p tr topics minScore verseLimit = (Inr None, tr)"
    by (simp add: GetTopicCard_def)
qed

theorem topic_card_selection_witness:
  "grace_claude \<in> set (elems (Slice [grace_torrey, grace_claude]))
   \<and> grace_torrey \<in> set (elems (Slice [grace_torrey, grace_claude]))
   \<and> (8/10 :: real) \<le> st_Score grace_claude \<and> (8/10 :: real) \<le> st_Score grace_torrey
   \<and> st_Score grace_claude < st_Score grace_torrey
   \<and> source_rank (st_Source grace_claude) < source_rank (st_Source grace_torrey)
   \<and> selectedTopic (Slice [grace_torrey, grace_claude]) (8/10) = Some grace_claude
   \<and> st_Score low_topic < 8/10
   \<and> GetTopicCard trinity_ports [] (Slice [low_topic]) (8/10) 3 = (Inr None, [])
   \<and> elems (NilSlice :: ScoredTopic slice) = []
   \<and> GetTopicCard trinity_ports [] NilSlice (8/10) 3 = (Inr None, [])"
proof -
  let ?ts = "Slice [grace_torrey, grace_claude]"
  have h1: "grace_claude \<in> set (elems ?ts) \<and> grace_torrey \<in> set (elems ?ts)
            \<and> (8/10 :: real) \<le> st_Score grace_claude \<and> (8/10 :: real) \<le> st_Score grace_torrey
            \<and> source_rank (st_Source grace_claude) < source_rank (st_Source grace_torrey)"
    by (simp add: grace_claude_def grace_torrey_def source_rank_def preferredSources_def)
  have h1': "st_Score grace_claude < st_Score grace_torrey"
    by (simp add: grace_claude_def grace_torrey_def)
  have s: "set (elems ?ts) = {grace_claude, grace_torrey}"
    by auto
  have h2: "\<forall>t\<in>set (elems (Slice [low_topic])). st_Score t < 8/10"
    by (simp add: low_topic_def)
  have h3: "elems (NilSlice :: ScoredTopic slice) = []"
    by simp
  from topic_card_selection [of ?ts "8/10" trinity_ports "[]" 3 grace_claude grace_torrey] h1 s
  have a: "selectedTopic ?ts (8/10) = Some grace_claude"
    by blast
  from topic_card_selection [of "Slice [low_topic]" "8/10" trinity_ports "[]" 3] h2
  have b: "GetTopicCard trinity_ports [] (Slice [low_topic]) (8/10) 3 = (Inr None, [])"
    by blast
  from topic_card_selection [of NilSlice "8/10" trinity_ports "[]" 3] h3
  have c: "GetTopicCard trinity_ports [] NilSlice (8/10) 3 = (Inr None, [])"
    by blast
  from h2 have h2': "st_Score low_topic < 8/10" by simp
  from h1 h1' h2' h3 a b c show ?thesis by blast
qed

subsection \<open>C1: the hybrid response and the topic card\<close>

text \<open>
  C1. The hybrid search handler never attaches a topic card: in every
  response \<open>topic_card\<close> is absent and the verses of a topic are never fetched.
  The card selector itself, given a topic list in which a topic of the most preferred
  source reaches the minimum score and no topic before it does so with that source,
  returns the card of exactly that topic when the fetch of its verses succeeds, whatever
  topics of other sources, verse counts or scores surround it.
\<close>

theorem hybrid_response_without_card_selector_prefers_source:
  fixes resp :: HybridSearchResponse and t :: ScoredTopic
  shows "(fst (HybridSearch p bound) = Inr resp \<longrightarrow> hr_TopicCard resp = None)
       \<and> (\<forall>tid k. GetTopicVersesCall tid k \<notin> set (snd (HybridSearch p bound)))
       \<and> (st_Source t = ''claude_4.5_opus'' \<and> minScore \<le> st_Score t
            \<and> (\<forall>u\<in>set pre. st_Source u \<noteq> ''claude_4.5_opus'' \<or> st_Score u < minScore)
            \<and> GetTopicVerses p (st_TopicID t) verseLimit = Inr verses
          \<longrightarrow> GetTopicCard p tr (Slice (pre @ t # post)) minScore verseLimit =
                (Inr (Some (to_TopicCard t verses)),
                 tr @ [GetTopicVersesCall (st_TopicID t) verseLimit]))"
proof (intro conjI impI allI)
  assume "fst (HybridSearch p bound) = Inr resp"
  then obtain req :: HybridSearchRequest and ts cs where
    "resp = \<lparr>hr_Query = hq_Query req, hr_TopicCard = None,
             hr_ResourceMatches = \<lparr>Topics = Slice ts\<rparr>,
             hr_SemanticMatches = \<lparr>Verses = Slice cs\<rparr>\<rparr>"
    by (blast dest: HybridSearch_Inr_shape)
  then show "hr_TopicCard resp = None" by simp
next
  fix tid k
  show "GetTopicVersesCall tid k \<notin> set (snd (HybridSearch p bound))"
    by (rule HybridSearch_no_GetTopicVerses)
next
  assume a: "st_Source t = ''claude_4.5_opus'' \<and> minScore \<le> st_Score t
            \<and> (\<forall>u\<in>set pre. st_Source u \<noteq> ''claude_4.5_opus'' \<or> st_Score u < minScore)
            \<and> GetTopicVerses p (st_TopicID t) verseLimit = Inr verses"
  then have "inner_loop (pre @ t # post) ''claude_4.5_opus'' minScore = Some t"
    by (simp add: inner_loop_first)
  then have "outer_loop preferredSources (pre @ t # post) minScore = Some t"
    by (simp add: preferredSources_def)
  then have "selectedTopic (Slice (pre @ t # post)) minScore = Some t"
    by (cases pre) (simp_all add: selectedTopic_def)
  with a show "GetTopicCard p tr (Slice (pre @ t # post)) minScore verseLimit =
                (Inr (Some (to_TopicCard t verses)),
                 tr @ [GetTopicVersesCall (st_TopicID t) verseLimit])"
    by (simp add: GetTopicCard_def)
qed

theorem hybrid_response_topic_card_counterexample:
  "HybridSearch trinity_ports (Some trinity_request) =
     (Inr \<lparr>hr_Query = ''trinity'', hr_TopicCard = None,
           hr_ResourceMatches =
             \<lparr>Topics = Slice [to_ScoredTopic trinity_naves, to_ScoredTopic trinity_claude]\<rparr>,
           hr_SemanticMatches = \<lparr>Verses = Slice (map to_Citation demo_verses)\<rparr>\<rparr>,
      [EmbedQueryCall ''trinity'', SearchVersesByEmbeddingCall [1, 0] 10,
       SearchByWordsCall [''trinity''] 5])
   \<and> st_Name (to_ScoredTopic trinity_claude) = ''Trinity''
   \<and> st_Source (to_ScoredTopic trinity_claude) = ''claude_4.5_opus''
   \<and> st_Score (to_ScoredTopic trinity_claude) = 1"
  by (simp add: trinity_run to_ScoredTopic_def trinity_claude_def)

theorem hybrid_response_without_card_selector_prefers_source_witness:
  "fst (HybridSearch trinity_ports (Some trinity_request)) =
     Inr \<lparr>hr_Query = ''trinity'', hr_TopicCard = None,
           hr_ResourceMatches =
             \<lparr>Topics = Slice [to_ScoredTopic trinity_naves, to_ScoredTopic trinity_claude]\<rparr>,
           hr_SemanticMatches = \<lparr>Verses = Slice (map to_Citation demo_verses)\<rparr>\<rparr>
   \<and> st_Source (to_ScoredTopic trinity_claude) = ''claude_4.5_opus''
   \<and> (8/10 :: real) \<le> st_Score (to_ScoredTopic trinity_claude)
   \<and> st_Source (to_ScoredTopic trinity_naves) \<noteq> ''claude_4.5_opus''
   \<and> st_VerseCount (to_ScoredTopic trinity_claude) < st_VerseCount (to_ScoredTopic trinity_naves)
   \<and> GetTopicVerses trinity_ports (st_TopicID (to_ScoredTopic trinity_claude)) 3
        = Inr (Slice [trinity_verse])
   \<and> GetTopicCard trinity_ports []
        (Slice [to_ScoredTopic trinity_naves, to_ScoredTopic trinity_claude]) (8/10) 3 =
       (Inr (Some \<lparr>tc_TopicID = ''c-17'', tc_Name = ''Trinity'', tc_Category = [],
                   tc_Source = ''claude_4.5_opus'', tc_VerseCount = 12, tc_Score = 1,
                   tc_TopVerses = Slice [trinity_verse]\<rparr>),
        [GetTopicVersesCall ''c-17'' 3])"
proof -
  let ?r = "\<lparr>hr_Query = ''trinity'', hr_TopicCard = None,
           hr_ResourceMatches =
             \<lparr>Topics = Slice [to_ScoredTopic trinity_naves, to_ScoredTopic trinity_claude]\<rparr>,
           hr_SemanticMatches = \<lparr>Verses = Slice (map to_Citation demo_verses)\<rparr>\<rparr>"
  let ?t = "to_ScoredTopic trinity_claude"
  have a: "fst (HybridSearch trinity_ports (Some trinity_request)) = Inr ?r"
    by (simp add: trinity_run)
  have h: "st_Source ?t = ''claude_4.5_opus'' \<and> (8/10 :: real) \<le> st_Score ?t
      \<and> (\<forall>u\<in>set [to_ScoredTopic trinity_naves].
             st_Source u \<noteq> ''claude_4.5_opus'' \<or> st_Score u < 8/10)
      \<and> GetTopicVerses trinity_ports (st_TopicID ?t) 3 = Inr (Slice [trinity_verse])"
    by (simp add: to_ScoredTopic_def trinity_claude_def trinity_naves_def trinity_ports_def)
  from hybrid_response_without_card_selector_prefers_source
         [of trinity_ports "Some trinity_request" ?r ?t "8/10" "[to_ScoredTopic trinity_naves]"
             3 "Slice [trinity_verse]" "[]" "[]"] h
  have "GetTopicCard trinity_ports [] (Slice ([to_ScoredTopic trinity_naves] @ ?t # []))
          (8/10) 3 =
        (Inr (Some (to_TopicCard ?t (Slice [trinity_verse]))),
         [] @ [GetTopicVersesCall (st_TopicID ?t) 3])"
    by blast
  then have b: "GetTopicCard trinity_ports []
        (Slice [to_ScoredTopic trinity_naves, to_ScoredTopic trinity_claude]) (8/10) 3 =
       (Inr (Some \<lparr>tc_TopicID = ''c-17'', tc_Name = ''Trinity'', tc_Category = [],
                   tc_Source = ''claude_4.5_opus'', tc_VerseCount = 12, tc_Score = 1,
                   tc_TopVerses = Slice [trinity_verse]\<rparr>),
        [GetTopicVersesCall ''c-17'' 3])"
    by (simp add: to_TopicCard_def to_ScoredTopic_def trinity_claude_def)
  have n: "st_Source (to_ScoredTopic trinity_naves) \<noteq> ''claude_4.5_opus''
      \<and> st_VerseCount (to_ScoredTopic trinity_claude) < st_VerseCount (to_ScoredTopic trinity_naves)"
    by (simp add: to_ScoredTopic_def trinity_claude_def trinity_naves_def)
  from a h b n show ?thesis by blast
qed

subsection \<open>SQL pattern matching on plain keywords\<close>

lemma like_percent_all: "like_match ''%'' s"
  by (induction s) auto

lemma like_plain_prefix:
  "plain_keyword w \<Longrightarrow> like_match (w @ ps) s = (\<exists>s'. s = w @ s' \<and> like_match ps s')"
proof (induction w arbitrary: s)
  case Nil
  then show ?case by simp
next
  case (Cons a w)
  then have pw: "plain_keyword w" and a: "a \<noteq> CHR ''%''" "a \<noteq> CHR ''_''" "a \<noteq> CHR 0x5C"
    by (simp_all add: plain_keyword_def)
  show ?case
  proof (cases s)
    case Nil
    with a show ?thesis by simp
  next
    case (Cons c cs)
    with a Cons.IH [OF pw, of cs] show ?thesis by auto
  qed
qed

lemma like_percent_suffix:
  "like_match (CHR ''%'' # ps) s = (\<exists>a b. s = a @ b \<and> like_match ps b)"
proof (induction s)
  case Nil
  then show ?case by simp
next
  case (Cons c cs)
  show ?case
  proof
    assume "like_match (CHR ''%'' # ps) (c # cs)"
    then consider "like_match ps (c # cs)" | "like_match (CHR ''%'' # ps) cs" by auto
    then show "\<exists>a b. c # cs = a @ b \<and> like_match ps b"
    proof cases
      case 1
      then have "c # cs = [] @ (c # cs) \<and> like_match ps (c # cs)" by simp
      then show ?thesis by blast
    next
      case 2
      with Cons.IH obtain a b where "cs = a @ b" "like_match ps b" by blast
      then have "c # cs = (c # a) @ b \<and> like_match ps b" by simp
      then show ?thesis by blast
    qed
  next
    assume "\<exists>a b. c # cs = a @ b \<and> like_match ps b"
    then obtain a b where ab: "c # cs = a @ b" "like_match ps b" by blast
    show "like_match (CHR ''%'' # ps) (c # cs)"
    proof (cases a)
      case Nil
      with ab have "like_match ps (c # cs)" by simp
      then show ?thesis by simp
    next
      case (Cons a0 a')
      with ab have "cs = a' @ b" by simp
      with ab Cons.IH have "like_match (CHR ''%'' # ps) cs" by blast
      then show ?thesis by simp
    qed
  qed
qed

lemma like_prefix_pattern:
  "plain_keyword w \<Longrightarrow> like_match (w @ ''%'') s = prefix w s"
  by (auto simp: like_plain_prefix like_percent_all prefix_def)

lemma like_substring_pattern:
  "plain_keyword w \<Longrightarrow> like_match (''%'' @ w @ ''%'') s = sublist w s"
  by (auto simp: like_percent_suffix like_plain_prefix like_percent_all sublist_def)


lemma of_char_ToLower_char:
  "(of_char (ToLower_char c) :: nat) =
     (if 65 \<le> (of_char c :: nat) \<and> (of_char c :: nat) \<le> 90 then of_char c + 32 else of_char c)"
  by (simp add: ToLower_char_def)

lemma ToLower_char_special:
  assumes "c \<noteq> CHR ''%''" "c \<noteq> CHR ''_''" "c \<noteq> CHR 0x5C"
  shows "ToLower_char c \<noteq> CHR ''%'' \<and> ToLower_char c \<noteq> CHR ''_'' \<and> ToLower_char c \<noteq> CHR 0x5C"
proof (cases "65 \<le> (of_char c :: nat) \<and> (of_char c :: nat) \<le> 90")
  case True
  then have ge: "(of_char (ToLower_char c) :: nat) \<ge> 97"
    by (simp add: of_char_ToLower_char)
  have "ToLower_char c \<noteq> d" if "(of_char d :: nat) < 97" for d
    using that ge by auto
  then show ?thesis by simp
next
  case False
  then have "ToLower_char c = c" by (auto simp: ToLower_char_def)
  with assms show ?thesis by simp
qed

lemma plain_ToLower: "plain_keyword w \<Longrightarrow> plain_keyword (ascii_lower w)"
  by (simp add: plain_keyword_def ascii_lower_def ToLower_char_special)

lemma TRIM_word_arg: "plain_keyword w \<Longrightarrow> sql_TRIM_percent (word_arg w) = w"
proof (cases w rule: rev_cases)
  case Nil
  then show ?thesis by (simp add: sql_TRIM_percent_def word_arg_def)
next
  case (snoc ys y)
  assume p: "plain_keyword w"
  with snoc have y: "y \<noteq> CHR ''%''"
    by (simp add: plain_keyword_def)
  from snoc have "w \<noteq> []" by simp
  with p obtain a as where w: "w = a # as" and a: "a \<noteq> CHR ''%''"
    by (cases w) (auto simp: plain_keyword_def)
  then have "dropWhile (\<lambda>c. c = CHR ''%'') (word_arg w) = w @ ''%''"
    by (simp add: word_arg_def)
  then have "sql_TRIM_percent (word_arg w) = rev (dropWhile (\<lambda>c. c = CHR ''%'') (rev w))"
    by (simp add: sql_TRIM_percent_def)
  also from snoc y have "dropWhile (\<lambda>c. c = CHR ''%'') (rev w) = rev w"
    by simp
  finally show ?thesis by simp
qed


lemma ToLower_word_arg: "ascii_lower (word_arg w) = ''%'' @ ascii_lower w @ ''%''"
  by (simp add: ascii_lower_def word_arg_def ToLower_char_def)

lemma tier_exact:
  "plain_keyword w \<Longrightarrow>
   sql_eq (sql_LOWER (row_topic r)) (sql_LOWER (Some (sql_TRIM_percent (word_arg w))))
     = exact_label w r"
  by (simp add: TRIM_word_arg sql_eq_def sql_LOWER_def exact_label_def split: option.splits)

lemma tier_prefix:
  "plain_keyword w \<Longrightarrow>
   sql_LIKE (sql_LOWER (row_topic r))
     (sql_concat (sql_LOWER (Some (sql_TRIM_percent (word_arg w)))) (Some ''%''))
     = prefix_label w r"
  by (simp add: TRIM_word_arg sql_LIKE_def sql_LOWER_def sql_concat_def prefix_label_def
      like_prefix_pattern plain_ToLower split: option.splits)

lemma tier_secondary:
  "plain_keyword w \<Longrightarrow>
   sql_eq (sql_LOWER (row_sub_topic r)) (sql_LOWER (Some (sql_TRIM_percent (word_arg w))))
     = exact_secondary w r"
  by (simp add: TRIM_word_arg sql_eq_def sql_LOWER_def exact_secondary_def split: option.splits)

lemma ILIKE_word_arg:
  "plain_keyword w \<Longrightarrow>
   sql_ILIKE x (Some (word_arg w))
     = (case x of None \<Rightarrow> False | Some t \<Rightarrow> sublist (ascii_lower w) (ascii_lower t))"
  using like_substring_pattern [OF plain_ToLower, of w]
  by (simp add: sql_ILIKE_def sql_LIKE_def sql_LOWER_def ToLower_word_arg split: option.splits)

lemma tier_substring:
  "plain_keyword w \<Longrightarrow>
   (sql_ILIKE (row_topic r) (Some (word_arg w)) \<or> sql_ILIKE (row_sub_topic r) (Some (word_arg w)))
     = substring_label w r"
  by (simp add: ILIKE_word_arg substring_label_def)

lemma tier_name:
  "plain_keyword w \<Longrightarrow> sql_ILIKE (row_name r) (Some (word_arg w)) = substring_name w r"
  by (simp add: ILIKE_word_arg substring_name_def)

lemma score_case_tiers:
  "plain_keyword w \<Longrightarrow>
   score_case (word_arg w) r =
     (if exact_label w r then 1
      else if prefix_label w r then 0.95
      else if exact_secondary w r then 0.9
      else if substring_label w r then 0.85
      else if substring_name w r then 0.7
      else 0)"
  unfolding score_case_def
  by (simp only: tier_exact tier_prefix tier_secondary tier_substring tier_name) simp

lemma Max_tiers:
  "Max (set [if a then 1.0 else 0, if b then 0.95 else 0, if c then 0.9 else 0,
             if d then 0.85 else 0, if e then 0.7 else 0, 0 :: real]) =
     (if a then 1 else if b then 0.95 else if c then 0.9 else if d then 0.85
      else if e then 0.7 else 0)"
  unfolding Max.set_eq_fold
  by (cases a; cases b; cases c; cases d; cases e; simp)

lemma keyword_contribution_tiers:
  "keyword_contribution w r =
     (if exact_label w r then 1
      else if prefix_label w r then 0.95
      else if exact_secondary w r then 0.9
      else if substring_label w r then 0.85
      else if substring_name w r then 0.7
      else 0)"
  unfolding keyword_contribution_def by (rule Max_tiers)

lemma score_case_contribution:
  "plain_keyword w \<Longrightarrow> score_case (word_arg w) r = keyword_contribution w r"
  by (simp add: score_case_tiers keyword_contribution_tiers)

lemma topic_score_Max:
  "words \<noteq> [] \<Longrightarrow>
   topic_score words r = Some (Max ((\<lambda>word. score_case (word_arg word) r) ` set words))"
proof (cases words)
  case Nil
  assume "words \<noteq> []"
  with Nil show ?thesis by simp
next
  case (Cons w ws)
  have "Max (set (score_case (word_arg w) r # map (\<lambda>word. score_case (word_arg word) r) ws))
        = fold max (map (\<lambda>word. score_case (word_arg word) r) ws) (score_case (word_arg w) r)"
    by (rule Max.set_eq_fold)
  with Cons show ?thesis by (simp add: topic_score_def)
qed

lemma topic_score_spec_eq:
  assumes "words \<noteq> []" and "\<forall>w\<in>set words. plain_keyword w"
  shows "topic_score words r = Some (topic_score_spec words r)"
proof -
  from assms(2) have "(\<lambda>word. score_case (word_arg word) r) ` set words
      = (\<lambda>w. keyword_contribution w r) ` set words"
    by (intro image_cong) (simp_all add: score_case_contribution)
  with topic_score_Max [OF assms(1), of r] show ?thesis
    by (simp add: topic_score_spec_def)
qed

lemma contribution_le_spec:
  "w \<in> set words \<Longrightarrow> keyword_contribution w r \<le> topic_score_spec words r"
  by (simp add: topic_score_spec_def)

lemma in_image_value: "w \<in> S \<Longrightarrow> f w = v \<Longrightarrow> v \<in> f ` S"
  by auto

lemma topic_score_spec_tiers:
  assumes "words \<noteq> []"
  shows "topic_score_spec words r =
     (if \<exists>w\<in>set words. exact_label w r then 1
      else if \<exists>w\<in>set words. prefix_label w r then 0.95
      else if \<exists>w\<in>set words. exact_secondary w r then 0.9
      else if \<exists>w\<in>set words. substring_label w r then 0.85
      else if \<exists>w\<in>set words. substring_name w r then 0.7
      else 0)" (is "_ = ?rhs")
  unfolding topic_score_spec_def
proof (rule Max_eqI)
  show "finite ((\<lambda>w. keyword_contribution w r) ` set words)" by simp
next
  fix y
  assume "y \<in> (\<lambda>w. keyword_contribution w r) ` set words"
  then obtain w where "w \<in> set words" "y = keyword_contribution w r" by blast
  then show "y \<le> ?rhs"
    by (auto simp: keyword_contribution_tiers)
next
  from assms obtain w0 where w0: "w0 \<in> set words" by (cases words) auto
  show "?rhs \<in> (\<lambda>w. keyword_contribution w r) ` set words"
  proof (cases "\<exists>w\<in>set words. exact_label w r")
    case True
    then obtain w where "w \<in> set words" "exact_label w r" by blast
    then have "keyword_contribution w r = ?rhs" by (auto simp: keyword_contribution_tiers)
    with \<open>w \<in> set words\<close> show ?thesis by (rule in_image_value)
  next
    case n1: False
    show ?thesis
    proof (cases "\<exists>w\<in>set words. prefix_label w r")
      case True
      then obtain w where "w \<in> set words" "prefix_label w r" by blast
      with n1 have "keyword_contribution w r = ?rhs" by (auto simp: keyword_contribution_tiers)
      with \<open>w \<in> set words\<close> show ?thesis by (rule in_image_value)
    next
      case n2: False
      show ?thesis
      proof (cases "\<exists>w\<in>set words. exact_secondary w r")
        case True
        then obtain w where "w \<in> set words" "exact_secondary w r" by blast
        with n1 n2 have "keyword_contribution w r = ?rhs"
          by (auto simp: keyword_contribution_tiers)
        with \<open>w \<in> set words\<close> show ?thesis by (rule in_image_value)
      next
        case n3: False
        show ?thesis
        proof (cases "\<exists>w\<in>set words. substring_label w r")
          case True
          then obtain w where "w \<in> set words" "substring_label w r" by blast
          with n1 n2 n3 have "keyword_contribution w r = ?rhs"
            by (auto simp: keyword_contribution_tiers)
          with \<open>w \<in> set words\<close> show ?thesis by (rule in_image_value)
        next
          case n4: False
          show ?thesis
          proof (cases "\<exists>w\<in>set words. substring_name w r")
            case True
            then obtain w where "w \<in> set words" "substring_name w r" by blast
            with n1 n2 n3 n4 have "keyword_contribution w r = ?rhs"
              by (auto simp: keyword_contribution_tiers)
            with \<open>w \<in> set words\<close> show ?thesis by (rule in_image_value)
          next
            case n5: False
            with n1 n2 n3 n4 w0 have "keyword_contribution w0 r = ?rhs"
              by (auto simp: keyword_contribution_tiers)
            with w0 show ?thesis by (rule in_image_value)
          qed
        qed
      qed
    qed
  qed
qed


lemma fields_loop_chars:
  "w \<in> set (fields_loop f cur s) \<Longrightarrow> c \<in> set w \<Longrightarrow> c \<in> set cur \<or> \<not> f c"
proof (induction s arbitrary: cur)
  case Nil
  then show ?case by (auto split: if_splits)
next
  case (Cons x xs)
  show ?case
  proof (cases "f x")
    case True
    with Cons.prems have "w = cur \<or> w \<in> set (fields_loop f [] xs)"
      by (auto split: if_splits)
    with Cons.IH [of "[]"] Cons.prems(2) show ?thesis by auto
  next
    case False
    with Cons.prems have "w \<in> set (fields_loop f (cur @ [x]) xs)" by simp
    from Cons.IH [OF this Cons.prems(2)] False show ?thesis by auto
  qed
qed

lemma tokenizeWords_chars:
  "w \<in> set (tokenizeWords q) \<Longrightarrow> c \<in> set w \<Longrightarrow> \<not> is_separator c"
  using fields_loop_chars [of w is_separator "[]" "ToLower q" c]
  by (simp add: tokenizeWords_filter FieldsFunc_def)

lemma not_separator_plain:
  "\<not> is_separator c \<Longrightarrow> c \<noteq> CHR ''%'' \<and> c \<noteq> CHR ''_'' \<and> c \<noteq> CHR 0x5C"
  by (auto simp: is_separator_def)

lemma tokenizeWords_plain: "\<forall>w\<in>set (tokenizeWords q). plain_keyword w"
  unfolding plain_keyword_def
  by (blast dest: tokenizeWords_chars not_separator_plain)

subsection \<open>C6: the keyword score is the maximum over keywords and kinds of match\<close>

text \<open>
  C6. For every non-empty list of keywords as the tokenizer produces them (free of the
  characters special to \<open>LIKE\<close>) and every topic row, the score the query computes is the
  maximum over the keywords of the keyword's contribution, the contribution being the
  maximum of 1.0 for an exact match of the primary label, 0.95 for a prefix match of it,
  0.9 for an exact match of the secondary label, 0.85 for a substring match of either
  label, 0.7 for a substring match of the display name, and 0 (all matches without regard
  to case). So no keyword contributes more than the score, and the score is the value of
  the strongest kind of match that any keyword has: 1.0, else 0.95, else 0.9, else 0.85,
  else 0.7, else 0; contributions are never added or averaged.
\<close>

theorem keyword_score_is_maximum_of_tiers:
  assumes "words \<noteq> []" and "\<forall>w\<in>set words. plain_keyword w"
  shows "topic_score words r = Some (topic_score_spec words r)
       \<and> (\<forall>w\<in>set words. keyword_contribution w r \<le> topic_score_spec words r)
       \<and> topic_score_spec words r =
           (if \<exists>w\<in>set words. exact_label w r then 1
            else if \<exists>w\<in>set words. prefix_label w r then 0.95
            else if \<exists>w\<in>set words. exact_secondary w r then 0.9
            else if \<exists>w\<in>set words. substring_label w r then 0.85
            else if \<exists>w\<in>set words. substring_name w r then 0.7
            else 0)"
proof (intro conjI ballI)
  show "topic_score words r = Some (topic_score_spec words r)"
    using assms by (rule topic_score_spec_eq)
next
  fix w
  assume "w \<in> set words"
  then show "keyword_contribution w r \<le> topic_score_spec words r"
    by (rule contribution_le_spec)
next
  show "topic_score_spec words r =
           (if \<exists>w\<in>set words. exact_label w r then 1
            else if \<exists>w\<in>set words. prefix_label w r then 0.95
            else if \<exists>w\<in>set words. exact_secondary w r then 0.9
            else if \<exists>w\<in>set words. substring_label w r then 0.85
            else if \<exists>w\<in>set words. substring_name w r then 0.7
            else 0)"
    using assms(1) by (rule topic_score_spec_tiers)
qed

lemma tok_holy_trinity: "tokenizeWords ''Holy Trinity'' = [''holy'', ''trinity'']"
  by code_simp

lemma lower_samples:
  "ascii_lower ''Trinity'' = ''trinity''"
  "ascii_lower ''Holy Spirit'' = ''holy spirit''"
  "ascii_lower ''Trinity, the Holy'' = ''trinity, the holy''"
  "ascii_lower ''holy'' = ''holy''"
  "ascii_lower ''trinity'' = ''trinity''"
  by code_simp+

lemma holy_contribution: "keyword_contribution ''holy'' trinity_row = 85/100"
  by (simp add: keyword_contribution_tiers exact_label_def prefix_label_def exact_secondary_def
      substring_label_def substring_name_def trinity_row_def lower_samples
      sublist_Cons_right)

lemma trinity_exact: "exact_label ''trinity'' trinity_row"
  by (simp add: exact_label_def trinity_row_def lower_samples)

theorem keyword_score_is_maximum_of_tiers_witness:
  "tokenizeWords ''Holy Trinity'' \<noteq> []
   \<and> plain_keyword ''holy'' \<and> plain_keyword ''trinity''
   \<and> tokenizeWords ''Holy Trinity'' = [''holy'', ''trinity'']
   \<and> keyword_contribution ''holy'' trinity_row = 85/100
   \<and> keyword_contribution ''trinity'' trinity_row = 1
   \<and> topic_score (tokenizeWords ''Holy Trinity'') trinity_row = Some 1"
proof -
  let ?ws = "tokenizeWords ''Holy Trinity''"
  have h1: "?ws \<noteq> []" by (simp add: tok_holy_trinity)
  have h2: "\<forall>w\<in>set ?ws. plain_keyword w" by (rule tokenizeWords_plain)
  note T = keyword_score_is_maximum_of_tiers [OF h1 h2, of trinity_row]
  have e: "\<exists>w\<in>set ?ws. exact_label w trinity_row"
    using trinity_exact by (simp add: tok_holy_trinity)
  with T have s: "topic_score_spec ?ws trinity_row = 1" by simp
  with T have a: "topic_score ?ws trinity_row = Some 1" by simp
  have b: "keyword_contribution ''trinity'' trinity_row = 1"
    using trinity_exact by (simp add: keyword_contribution_tiers)
  from h2 have p: "plain_keyword ''holy'' \<and> plain_keyword ''trinity''"
    by (simp add: tok_holy_trinity)
  from h1 p a b holy_contribution tok_holy_trinity show ?thesis by blast
qed

end
